theory Spec2Isabelle
  imports Main "HOL-Library.Word" "HOL-Library.List_Lexorder" "HOL-Library.Char_ord"
begin

section \<open>Vesting accounts of the auth module\<close>

text \<open>
  The development embeds the account file of package \<open>auth\<close>: the account structs, the
  schedule queries \<open>GetVestedCoins\<close>, \<open>GetVestingCoins\<close>, \<open>SpendableCoins\<close> and the two
  ledger updates \<open>TrackDelegation\<close> and \<open>TrackUndelegation\<close> of the continuous vesting
  account. The coin and decimal arithmetic of package \<open>types\<close> (imported as \<open>sdk\<close>) is
  missing from the sources; it is modelled from the specification and marked so.
\<close>

subsection \<open>Failures\<close>

text \<open>
  A Go panic is a value. \<open>NegativeResult\<close> is the failure of coin subtraction,
  \<open>DivisionByZero\<close> the run-time panic of a big-integer quotient with divisor zero.
\<close>

datatype error = NegativeResult | DivisionByZero

subsection \<open>Coins\<close>

text \<open>
  A coin is a denomination and a big-integer amount (\<open>sdk.Int\<close> is signed and unbounded
  here). Denominations are Go strings, compared bytewise and lexicographically.
\<close>

datatype Coin = Coin (Denom: string) (Amount: int)

type_synonym Coins = "Coin list"

text \<open>
  Modelled from the spec: \<open>sdk.NewCoin\<close>, \<open>Coin.IsZero\<close>, \<open>sdk.MinInt\<close>, \<open>sdk.MaxInt\<close>
  and \<open>sdk.ZeroInt\<close> are missing from the sources. Section 3.1 gives a coin as the pair
  of its denomination and amount; section 4.1 calls minimum and maximum plain big-integer
  operations.
\<close>

definition NewCoin :: "string \<Rightarrow> int \<Rightarrow> Coin" where
  "NewCoin denom amount = Coin denom amount"

definition IsZero :: "Coin \<Rightarrow> bool" where
  "IsZero coin = (Amount coin = 0)"

definition ZeroInt :: int where
  "ZeroInt = 0"

definition MinInt :: "int \<Rightarrow> int \<Rightarrow> int" where
  "MinInt i1 i2 = (if i1 < i2 then i1 else i2)"

definition MaxInt :: "int \<Rightarrow> int \<Rightarrow> int" where
  "MaxInt i1 i2 = (if i1 < i2 then i2 else i1)"

text \<open>
  Modelled from the spec: \<open>Coins.AmountOf\<close> is missing from the sources. Section 4.1:
  the amount of a denomination, 0 if absent.
\<close>

fun AmountOf :: "Coins \<Rightarrow> string \<Rightarrow> int" where
  "AmountOf [] denom = 0"
| "AmountOf (c # cs) denom = (if Denom c = denom then Amount c else AmountOf cs denom)"

text \<open>
  The normal form of section 3.1: denominations strictly increasing (hence unique), every
  amount strictly positive. The empty sequence is the zero.
\<close>

fun sorted_denoms :: "Coins \<Rightarrow> bool" where
  "sorted_denoms [] = True"
| "sorted_denoms [c] = True"
| "sorted_denoms (a # b # cs) = (Denom a < Denom b \<and> sorted_denoms (b # cs))"

fun all_positive :: "Coins \<Rightarrow> bool" where
  "all_positive [] = True"
| "all_positive (c # cs) = (0 < Amount c \<and> all_positive cs)"

definition normal_form :: "Coins \<Rightarrow> bool" where
  "normal_form cs = (sorted_denoms cs \<and> all_positive cs)"

fun strip_zeros :: "Coins \<Rightarrow> Coins" where
  "strip_zeros [] = []"
| "strip_zeros (c # cs) = (if Amount c = 0 then strip_zeros cs else c # strip_zeros cs)"

fun any_negative :: "Coins \<Rightarrow> bool" where
  "any_negative [] = False"
| "any_negative (c # cs) = (Amount c < 0 \<or> any_negative cs)"

text \<open>
  Modelled from the spec: \<open>Coins.Plus\<close> is missing from the sources. Section 4.1: it
  merges by denomination, sums the amounts, strips zeros and returns a sorted result;
  adding a zero-amount coin is a no-op.
\<close>

fun merge_coins :: "Coins \<Rightarrow> Coins \<Rightarrow> Coins" where
  "merge_coins [] bs = bs"
| "merge_coins as [] = as"
| "merge_coins (a # as) (b # bs) =
     (if Denom a < Denom b then a # merge_coins as (b # bs)
      else if Denom b < Denom a then b # merge_coins (a # as) bs
      else Coin (Denom a) (Amount a + Amount b) # merge_coins as bs)"

definition Plus :: "Coins \<Rightarrow> Coins \<Rightarrow> Coins" where
  "Plus coins coinsB = strip_zeros (merge_coins coins coinsB)"

text \<open>
  Modelled from the spec: \<open>Coins.Minus\<close> is missing from the sources. Section 4.1: it
  subtracts denomination-wise and fails with \<open>NegativeResult\<close> if any resulting amount
  would be negative; subtracting a denomination that is not in the minuend is a no-op and
  not an error. Zero results are stripped (section 3.1).
\<close>

fun subtract_coins :: "Coins \<Rightarrow> Coins \<Rightarrow> Coins" where
  "subtract_coins [] bs = []"
| "subtract_coins as [] = as"
| "subtract_coins (a # as) (b # bs) =
     (if Denom a < Denom b then a # subtract_coins as (b # bs)
      else if Denom b < Denom a then subtract_coins (a # as) bs
      else Coin (Denom a) (Amount a - Amount b) # subtract_coins as bs)"

definition Minus :: "Coins \<Rightarrow> Coins \<Rightarrow> error + Coins" where
  "Minus coins coinsB =
     (let diff = subtract_coins coins coinsB
      in if any_negative diff then Inl NegativeResult else Inr (strip_zeros diff))"

subsection \<open>Fixed-precision decimals\<close>

text \<open>
  Modelled from the spec: the decimal type \<open>sdk.Dec\<close> with \<open>NewDec\<close>, \<open>NewDecFromInt\<close>,
  \<open>Quo\<close>, \<open>Mul\<close> and \<open>RoundInt\<close> is missing from the sources. Section 4.3: a fixed
  18-digit decimal, rounding half away from zero to the nearest representable value. A
  decimal is the integer of its value scaled by \<open>10 ^ 18\<close>. \<open>NewDec\<close> takes a Go
  \<open>int64\<close>. A quotient by zero panics in Go's big integers and is an error here.
\<close>

datatype Dec = Dec (raw: int)

definition precision :: int where
  "precision = 10 ^ 18"

definition round_quot :: "int \<Rightarrow> int \<Rightarrow> int" where
  "round_quot n d =
     (if 0 \<le> n then (2 * n + d) div (2 * d) else - ((2 * (- n) + d) div (2 * d)))"

definition NewDec :: "64 word \<Rightarrow> Dec" where
  "NewDec i = Dec (sint i * precision)"

definition NewDecFromInt :: "int \<Rightarrow> Dec" where
  "NewDecFromInt i = Dec (i * precision)"

definition Quo :: "Dec \<Rightarrow> Dec \<Rightarrow> error + Dec" where
  "Quo d d2 =
     (if raw d2 = 0 then Inl DivisionByZero
      else if raw d2 < 0 then Inr (Dec (round_quot (- (raw d * precision)) (- raw d2)))
      else Inr (Dec (round_quot (raw d * precision) (raw d2))))"

definition Mul :: "Dec \<Rightarrow> Dec \<Rightarrow> Dec" where
  "Mul d d2 = Dec (round_quot (raw d * raw d2) precision)"

definition RoundInt :: "Dec \<Rightarrow> int" where
  "RoundInt d = round_quot (raw d) precision"

subsection \<open>Account structs\<close>

text \<open>
  Struct embedding is record extension. An address is a byte slice, a public key an
  opaque value that may be nil, and a \<open>time.Time\<close> is represented by the \<open>int64\<close> that
  its \<open>Unix()\<close> method returns, the only view of it the code takes.
\<close>

record BaseAccount =
  Address :: "8 word list"
  Coins :: Coins
  PubKey :: "8 word list option"
  AccountNumber :: "64 word"
  Sequence :: "64 word"

record BaseVestingAccount = BaseAccount +
  originalVesting :: Coins
  delegatedFree :: Coins
  endTime :: "64 word"

record ContinuousVestingAccount = BaseVestingAccount +
  delegatedVesting :: Coins
  startTime :: "64 word"

text \<open>
  The zero value of \<open>time.Time\<close> is not needed: the constructor sets both times. Fields
  that the struct literals leave out take Go's zero values.
\<close>

definition NewContinuousVestingAccount ::
  "8 word list \<Rightarrow> Coins \<Rightarrow> 64 word \<Rightarrow> 64 word \<Rightarrow> ContinuousVestingAccount" where
  "NewContinuousVestingAccount addr origCoins startTime' endTime' =
     \<lparr> Address = addr, Coins = origCoins, PubKey = None, AccountNumber = 0, Sequence = 0,
       originalVesting = origCoins, delegatedFree = [], endTime = endTime',
       delegatedVesting = [], startTime = startTime' \<rparr>"

subsection \<open>Schedule queries\<close>

text \<open>
  The loop body of \<open>GetVestedCoins\<close>: the vested amount of one original coin under the
  scalar \<open>s\<close>.
\<close>

definition vestedAmt :: "Dec \<Rightarrow> int \<Rightarrow> int" where
  "vestedAmt s amount = RoundInt (Mul (NewDecFromInt amount) s)"

fun GetVestedCoins_loop :: "Dec \<Rightarrow> Coins \<Rightarrow> Coins \<Rightarrow> Coins" where
  "GetVestedCoins_loop s vestedCoins [] = vestedCoins"
| "GetVestedCoins_loop s vestedCoins (ovc # rest) =
     GetVestedCoins_loop s
       (Plus vestedCoins [NewCoin (Denom ovc) (vestedAmt s (Amount ovc))]) rest"

text \<open>
  The two differences are \<open>int64\<close> subtractions and wrap around. There is no branch for
  block times at or after the end time.
\<close>

definition GetVestedCoins :: "ContinuousVestingAccount \<Rightarrow> 64 word \<Rightarrow> error + Coins" where
  "GetVestedCoins cva blockTime =
     (if sint blockTime \<le> sint (startTime cva) then Inr []
      else
        let x = blockTime - startTime cva;
            y = endTime cva - startTime cva
        in case Quo (NewDec x) (NewDec y) of
             Inl e \<Rightarrow> Inl e
           | Inr s \<Rightarrow> Inr (GetVestedCoins_loop s [] (originalVesting cva)))"

definition GetVestingCoins :: "ContinuousVestingAccount \<Rightarrow> 64 word \<Rightarrow> error + Coins" where
  "GetVestingCoins cva blockTime =
     (case GetVestedCoins cva blockTime of
        Inl e \<Rightarrow> Inl e
      | Inr vested \<Rightarrow> Minus (originalVesting cva) vested)"

fun SpendableCoins_loop :: "Coins \<Rightarrow> Coins \<Rightarrow> Coins \<Rightarrow> Coins \<Rightarrow> Coins" where
  "SpendableCoins_loop dv v spendableCoins [] = spendableCoins"
| "SpendableCoins_loop dv v spendableCoins (coin # rest) =
     (let baseAmt = Amount coin;
          delVestingAmt = AmountOf dv (Denom coin);
          vestingAmt = AmountOf v (Denom coin);
          min' = MinInt (baseAmt + delVestingAmt - vestingAmt) baseAmt;
          spendableCoin = NewCoin (Denom coin) min'
      in if \<not> IsZero spendableCoin
         then SpendableCoins_loop dv v (Plus spendableCoins [spendableCoin]) rest
         else SpendableCoins_loop dv v spendableCoins rest)"

definition SpendableCoins :: "ContinuousVestingAccount \<Rightarrow> 64 word \<Rightarrow> error + Coins" where
  "SpendableCoins cva blockTime =
     (let bc = Coins cva
      in case GetVestingCoins cva blockTime of
           Inl e \<Rightarrow> Inl e
         | Inr v \<Rightarrow> Inr (SpendableCoins_loop (delegatedVesting cva) v [] bc))"

subsection \<open>Delegation tracking\<close>

text \<open>
  Both methods have a pointer receiver and return nothing. A panic leaves the account as
  the assignments before it made it, so a failure carries the account at that point:
  \<open>Inl (e, cva)\<close>. The base coins \<open>bc\<close> and the vesting coins \<open>v\<close> are read once, before
  the loop.
\<close>

fun TrackDelegation_loop ::
  "Coins \<Rightarrow> Coins \<Rightarrow> ContinuousVestingAccount \<Rightarrow> Coins
     \<Rightarrow> (error \<times> ContinuousVestingAccount) + ContinuousVestingAccount" where
  "TrackDelegation_loop bc v cva [] = Inr cva"
| "TrackDelegation_loop bc v cva (coin # rest) =
     (if Amount coin = 0 \<or> AmountOf bc (Denom coin) < Amount coin
      then TrackDelegation_loop bc v cva rest
      else
        let vestingAmt = AmountOf v (Denom coin);
            delVestingAmt = AmountOf (delegatedVesting cva) (Denom coin);
            x = MinInt (MaxInt (vestingAmt - delVestingAmt) ZeroInt) (Amount coin);
            y = Amount coin - x;
            cva1 = (if x \<noteq> 0
                    then cva\<lparr>delegatedVesting :=
                               Plus (delegatedVesting cva) [NewCoin (Denom coin) x]\<rparr>
                    else cva);
            cva2 = (if y \<noteq> 0
                    then cva1\<lparr>delegatedFree :=
                                Plus (delegatedFree cva1) [NewCoin (Denom coin) y]\<rparr>
                    else cva1)
        in case Minus bc [coin] of
             Inl e \<Rightarrow> Inl (e, cva2)
           | Inr c \<Rightarrow> TrackDelegation_loop bc v (cva2\<lparr>Coins := c\<rparr>) rest)"

definition TrackDelegation ::
  "ContinuousVestingAccount \<Rightarrow> 64 word \<Rightarrow> Coins
     \<Rightarrow> (error \<times> ContinuousVestingAccount) + ContinuousVestingAccount" where
  "TrackDelegation cva blockTime amount =
     (let bc = Coins cva
      in case GetVestingCoins cva blockTime of
           Inl e \<Rightarrow> Inl (e, cva)
         | Inr v \<Rightarrow> TrackDelegation_loop bc v cva amount)"

fun TrackUndelegation_loop ::
  "Coins \<Rightarrow> ContinuousVestingAccount \<Rightarrow> Coins
     \<Rightarrow> (error \<times> ContinuousVestingAccount) + ContinuousVestingAccount" where
  "TrackUndelegation_loop bc cva [] = Inr cva"
| "TrackUndelegation_loop bc cva (coin # rest) =
     (if Amount coin = 0 then TrackUndelegation_loop bc cva rest
      else
        let delegatedFree' = AmountOf (delegatedFree cva) (Denom coin);
            x = MinInt delegatedFree' (Amount coin);
            y = Amount coin - x
        in case (if x \<noteq> 0 then Minus (delegatedFree cva) [NewCoin (Denom coin) x]
                 else Inr (delegatedFree cva)) of
             Inl e \<Rightarrow> Inl (e, cva)
           | Inr df \<Rightarrow>
               (let cva1 = cva\<lparr>delegatedFree := df\<rparr>
                in case (if y \<noteq> 0
                         then Minus (delegatedVesting cva1) [NewCoin (Denom coin) y]
                         else Inr (delegatedVesting cva1)) of
                     Inl e \<Rightarrow> Inl (e, cva1)
                   | Inr dv \<Rightarrow>
                       TrackUndelegation_loop bc
                         (cva1\<lparr>delegatedVesting := dv, Coins := Plus bc [coin]\<rparr>) rest))"

definition TrackUndelegation ::
  "ContinuousVestingAccount \<Rightarrow> Coins
     \<Rightarrow> (error \<times> ContinuousVestingAccount) + ContinuousVestingAccount" where
  "TrackUndelegation cva amount = TrackUndelegation_loop (Coins cva) cva amount"

subsection \<open>Derived notions used in the statements\<close>

text \<open>
  The vesting scalar that \<open>GetVestedCoins\<close> computes after the start time, when the
  schedule length is not zero.
\<close>

definition scalar :: "ContinuousVestingAccount \<Rightarrow> 64 word \<Rightarrow> Dec" where
  "scalar cva blockTime =
     Dec (round_quot (sint (blockTime - startTime cva) * precision * precision)
            (sint (endTime cva - startTime cva) * precision))"

text \<open>The conserved quantity of section 4.7, per denomination.\<close>

definition Q :: "ContinuousVestingAccount \<Rightarrow> string \<Rightarrow> int" where
  "Q cva denom =
     AmountOf (Coins cva) denom + AmountOf (delegatedVesting cva) denom
       + AmountOf (delegatedFree cva) denom"

text \<open>
  A sequence of tracking calls on one account. A panic ends the sequence with the account
  as the panic left it.
\<close>

datatype tracking_call = CallTrackDelegation "64 word" Coins | CallTrackUndelegation Coins

fun run_call ::
  "ContinuousVestingAccount \<Rightarrow> tracking_call
     \<Rightarrow> (error \<times> ContinuousVestingAccount) + ContinuousVestingAccount" where
  "run_call cva (CallTrackDelegation blockTime amount) = TrackDelegation cva blockTime amount"
| "run_call cva (CallTrackUndelegation amount) = TrackUndelegation cva amount"

fun run_calls ::
  "ContinuousVestingAccount \<Rightarrow> tracking_call list
     \<Rightarrow> (error \<times> ContinuousVestingAccount) + ContinuousVestingAccount" where
  "run_calls cva [] = Inr cva"
| "run_calls cva (call # calls) =
     (case run_call cva call of
        Inl failure \<Rightarrow> Inl failure
      | Inr cva' \<Rightarrow> run_calls cva' calls)"

subsection \<open>Delayed vesting accounts\<close>

text \<open>
  The source declares \<open>DelayedVestingAccount\<close> as a struct that embeds
  \<open>BaseVestingAccount\<close> and adds no field and no method; the assertion that it
  implements \<open>VestingAccount\<close> is commented out.
\<close>

type_synonym DelayedVestingAccount = BaseVestingAccount

text \<open>
  Modelled from the spec: the schedule and the spendable coins of a delayed vesting
  account are missing from the sources. Section 4.3: nothing is vested before the end
  time and everything from it on; the vesting coins are the original ones minus the
  vested ones. Section 4.4: for each denomination of the base balance the spendable
  amount is \<open>min (max (BC + DV - V) 0) BC\<close>, and zero results are stripped. The ledger
  \<open>DV\<close> of section 3.3 is not a field of the struct and is passed in.
\<close>

definition DelayedGetVestedCoins :: "DelayedVestingAccount \<Rightarrow> 64 word \<Rightarrow> Coins" where
  "DelayedGetVestedCoins dva blockTime =
     (if sint blockTime < sint (endTime dva) then [] else originalVesting dva)"

definition DelayedGetVestingCoins :: "DelayedVestingAccount \<Rightarrow> 64 word \<Rightarrow> error + Coins" where
  "DelayedGetVestingCoins dva blockTime =
     Minus (originalVesting dva) (DelayedGetVestedCoins dva blockTime)"

fun spendable_per_spec :: "Coins \<Rightarrow> Coins \<Rightarrow> Coins \<Rightarrow> Coins" where
  "spendable_per_spec dv v [] = []"
| "spendable_per_spec dv v (coin # rest) =
     (let amount = MinInt (MaxInt (Amount coin + AmountOf dv (Denom coin)
                                     - AmountOf v (Denom coin)) 0) (Amount coin)
      in if amount = 0 then spendable_per_spec dv v rest
         else Coin (Denom coin) amount # spendable_per_spec dv v rest)"

definition DelayedSpendableCoins ::
  "DelayedVestingAccount \<Rightarrow> Coins \<Rightarrow> 64 word \<Rightarrow> error + Coins" where
  "DelayedSpendableCoins dva dv blockTime =
     (case DelayedGetVestingCoins dva blockTime of
        Inl e \<Rightarrow> Inl e
      | Inr v \<Rightarrow> Inr (spendable_per_spec dv v (Coins dva)))"

subsection \<open>Sample accounts\<close>

text \<open>
  The account of the seed scenarios of section 8 (100 atom vesting from time 0 to time
  100) and an account with two denominations.
\<close>

definition seed_account :: ContinuousVestingAccount where
  "seed_account = NewContinuousVestingAccount [] [Coin ''atom'' 100] 0 100"

definition two_denom_account :: ContinuousVestingAccount where
  "two_denom_account = NewContinuousVestingAccount [] [Coin ''a'' 1, Coin ''b'' 1] 0 100"


text \<open>The delayed account of seed scenario 6: 100 atom locked until time 100.\<close>

definition delayed_seed_account :: DelayedVestingAccount where
  "delayed_seed_account =
     \<lparr> Address = [], Coins = [Coin ''atom'' 100], PubKey = None, AccountNumber = 0,
       Sequence = 0, originalVesting = [Coin ''atom'' 100], delegatedFree = [],
       endTime = 100 \<rparr>"

section \<open>Coin arithmetic\<close>

lemma sorted_denoms_Cons:
  "sorted_denoms (a # cs) \<longleftrightarrow> (\<forall>c\<in>set cs. Denom a < Denom c) \<and> sorted_denoms cs"
  by (induction cs arbitrary: a) auto

lemma AmountOf_absent: "denom \<notin> Denom ` set cs \<Longrightarrow> AmountOf cs denom = 0"
  by (induction cs) auto

lemma AmountOf_above:
  "\<forall>c\<in>set cs. a < Denom c \<Longrightarrow> denom \<le> a \<Longrightarrow> AmountOf cs denom = 0"
  by (rule AmountOf_absent) auto

lemma denoms_merge_coins:
  "Denom ` set (merge_coins as bs) = Denom ` set as \<union> Denom ` set bs"
  by (induction as bs rule: merge_coins.induct) auto

lemma above_merge_coins:
  "\<forall>c\<in>set as. a < Denom c \<Longrightarrow> \<forall>c\<in>set bs. a < Denom c \<Longrightarrow>
   \<forall>c\<in>set (merge_coins as bs). a < Denom c"
proof -
  assume "\<forall>c\<in>set as. a < Denom c" "\<forall>c\<in>set bs. a < Denom c"
  then have "\<forall>d \<in> Denom ` set as \<union> Denom ` set bs. a < d" by auto
  then have "\<forall>d \<in> Denom ` set (merge_coins as bs). a < d"
    by (simp only: denoms_merge_coins)
  then show ?thesis by auto
qed

lemma sorted_merge_coins:
  "sorted_denoms as \<Longrightarrow> sorted_denoms bs \<Longrightarrow> sorted_denoms (merge_coins as bs)"
proof (induction as bs rule: merge_coins.induct)
  case (3 a as b bs)
  from "3.prems" have sa: "sorted_denoms as" and sb: "sorted_denoms bs"
    and aa: "\<forall>c\<in>set as. Denom a < Denom c" and bb: "\<forall>c\<in>set bs. Denom b < Denom c"
    by (simp_all add: sorted_denoms_Cons)
  show ?case
  proof (cases "Denom a < Denom b")
    case True
    with bb have "\<forall>c\<in>set (b # bs). Denom a < Denom c" by auto
    with aa have "\<forall>c\<in>set (merge_coins as (b # bs)). Denom a < Denom c"
      by (rule above_merge_coins)
    with True 3 sa show ?thesis by (simp add: sorted_denoms_Cons)
  next
    case False
    show ?thesis
    proof (cases "Denom b < Denom a")
      case True
      with aa have "\<forall>c\<in>set (a # as). Denom b < Denom c" by auto
      then have "\<forall>c\<in>set (merge_coins (a # as) bs). Denom b < Denom c"
        using bb by (rule above_merge_coins)
      with True False 3 sb show ?thesis by (simp add: sorted_denoms_Cons)
    next
      case F2: False
      with False have eq: "Denom a = Denom b" by simp
      with bb have "\<forall>c\<in>set bs. Denom a < Denom c" by simp
      with aa have "\<forall>c\<in>set (merge_coins as bs). Denom a < Denom c"
        by (rule above_merge_coins)
      with False F2 3 sa sb show ?thesis by (simp add: sorted_denoms_Cons)
    qed
  qed
qed simp_all

lemma AmountOf_merge_coins:
  "sorted_denoms as \<Longrightarrow> sorted_denoms bs \<Longrightarrow>
   AmountOf (merge_coins as bs) denom = AmountOf as denom + AmountOf bs denom"
proof (induction as bs rule: merge_coins.induct)
  case (3 a as b bs)
  from "3.prems" have sa: "sorted_denoms as" and sb: "sorted_denoms bs"
    and aa: "\<forall>c\<in>set as. Denom a < Denom c" and bb: "\<forall>c\<in>set bs. Denom b < Denom c"
    by (simp_all add: sorted_denoms_Cons)
  show ?case
  proof (cases "Denom a < Denom b")
    case True
    have "AmountOf bs (Denom a) = 0"
      using bb True by (intro AmountOf_above [of bs "Denom b"]) auto
    with True 3 sa show ?thesis by auto
  next
    case False
    show ?thesis
    proof (cases "Denom b < Denom a")
      case True
      have "AmountOf as (Denom b) = 0"
        using aa True by (intro AmountOf_above [of as "Denom a"]) auto
      with True False 3 sb show ?thesis by auto
    next
      case F2: False
      with False have eq: "Denom a = Denom b" by simp
      have "AmountOf bs (Denom b) = 0" "AmountOf as (Denom a) = 0"
        using aa bb by (auto intro: AmountOf_above)
      with False F2 3 sa sb eq show ?thesis by auto
    qed
  qed
qed simp_all

lemma set_strip_zeros: "set (strip_zeros cs) = {c \<in> set cs. Amount c \<noteq> 0}"
  by (induction cs) auto

lemma sorted_strip_zeros: "sorted_denoms cs \<Longrightarrow> sorted_denoms (strip_zeros cs)"
  by (induction cs) (auto simp: sorted_denoms_Cons set_strip_zeros)

lemma AmountOf_strip_zeros:
  "sorted_denoms cs \<Longrightarrow> AmountOf (strip_zeros cs) denom = AmountOf cs denom"
proof (induction cs)
  case (Cons a cs)
  then have "AmountOf cs (Denom a) = 0"
    by (auto simp: sorted_denoms_Cons intro: AmountOf_above)
  with Cons show ?case by (auto simp: sorted_denoms_Cons)
qed simp

lemma all_positive_strip_zeros: "all_positive (strip_zeros cs) \<longleftrightarrow> \<not> any_negative cs"
  by (induction cs) auto

lemma any_negative_iff: "any_negative cs \<longleftrightarrow> (\<exists>c\<in>set cs. Amount c < 0)"
  by (induction cs) auto

lemma all_positive_iff: "all_positive cs \<longleftrightarrow> (\<forall>c\<in>set cs. 0 < Amount c)"
  by (induction cs) auto

lemma AmountOf_member:
  "sorted_denoms cs \<Longrightarrow> c \<in> set cs \<Longrightarrow> AmountOf cs (Denom c) = Amount c"
  by (induction cs) (auto simp: sorted_denoms_Cons)

lemma AmountOf_present:
  "denom \<in> Denom ` set cs \<Longrightarrow> \<exists>c\<in>set cs. Denom c = denom \<and> AmountOf cs denom = Amount c"
  by (induction cs) auto

lemma any_negative_AmountOf:
  "sorted_denoms cs \<Longrightarrow> any_negative cs \<longleftrightarrow> (\<exists>denom. AmountOf cs denom < 0)"
proof
  assume s: "sorted_denoms cs" and "any_negative cs"
  then obtain c where "c \<in> set cs" "Amount c < 0" by (auto simp: any_negative_iff)
  with s have "AmountOf cs (Denom c) < 0" by (simp add: AmountOf_member)
  then show "\<exists>denom. AmountOf cs denom < 0" ..
next
  assume "\<exists>denom. AmountOf cs denom < 0"
  then obtain d where d: "AmountOf cs d < 0" ..
  then have "d \<in> Denom ` set cs" using AmountOf_absent [of d cs] by auto
  from AmountOf_present [OF this] d show "any_negative cs"
    by (auto simp: any_negative_iff)
qed

lemma normal_form_present:
  "normal_form cs \<Longrightarrow> denom \<in> Denom ` set cs \<longleftrightarrow> 0 < AmountOf cs denom"
proof
  assume n: "normal_form cs" and "denom \<in> Denom ` set cs"
  from AmountOf_present [OF this(2)] n show "0 < AmountOf cs denom"
    by (auto simp: normal_form_def all_positive_iff)
next
  assume "0 < AmountOf cs denom"
  then show "denom \<in> Denom ` set cs" using AmountOf_absent [of denom cs] by auto
qed

lemma normal_form_nonneg: "normal_form cs \<Longrightarrow> 0 \<le> AmountOf cs denom"
  using normal_form_present [of cs denom] AmountOf_absent [of denom cs] by force

lemma denoms_subtract_coins:
  "Denom ` set (subtract_coins as bs) = Denom ` set as"
  by (induction as bs rule: subtract_coins.induct) auto

lemma above_subtract_coins:
  "\<forall>c\<in>set as. a < Denom c \<Longrightarrow> \<forall>c\<in>set (subtract_coins as bs). a < Denom c"
proof -
  assume "\<forall>c\<in>set as. a < Denom c"
  then have "\<forall>d \<in> Denom ` set as. a < d" by auto
  then have "\<forall>d \<in> Denom ` set (subtract_coins as bs). a < d"
    by (simp only: denoms_subtract_coins)
  then show ?thesis by auto
qed

lemma sorted_subtract_coins:
  "sorted_denoms as \<Longrightarrow> sorted_denoms (subtract_coins as bs)"
proof (induction as bs rule: subtract_coins.induct)
  case (3 a as b bs)
  from "3.prems" have sa: "sorted_denoms as"
    and aa: "\<forall>c\<in>set as. Denom a < Denom c"
    by (simp_all add: sorted_denoms_Cons)
  from aa have "\<forall>c\<in>set (subtract_coins as (b # bs)). Denom a < Denom c"
    "\<forall>c\<in>set (subtract_coins as bs). Denom a < Denom c"
    by (rule above_subtract_coins)+
  with 3 sa show ?case by (auto simp: sorted_denoms_Cons)
qed simp_all

lemma AmountOf_subtract_coins:
  "sorted_denoms as \<Longrightarrow> sorted_denoms bs \<Longrightarrow>
   AmountOf (subtract_coins as bs) denom =
     (if denom \<in> Denom ` set as then AmountOf as denom - AmountOf bs denom else 0)"
proof (induction as bs rule: subtract_coins.induct)
  case (3 a as b bs)
  from "3.prems" have sa: "sorted_denoms as" and sb: "sorted_denoms bs"
    and aa: "\<forall>c\<in>set as. Denom a < Denom c" and bb: "\<forall>c\<in>set bs. Denom b < Denom c"
    by (simp_all add: sorted_denoms_Cons)
  have na: "Denom a \<notin> Denom ` set as" using aa by auto
  show ?case
  proof (cases "Denom a < Denom b")
    case True
    have "AmountOf bs (Denom a) = 0"
      using bb True by (intro AmountOf_above [of bs "Denom b"]) auto
    with True 3 sa na show ?thesis by auto
  next
    case False
    show ?thesis
    proof (cases "Denom b < Denom a")
      case True
      have "Denom b \<notin> Denom ` set as" using aa True by auto
      with True False 3 sb show ?thesis by (auto simp: AmountOf_absent)
    next
      case F2: False
      with False have eq: "Denom a = Denom b" by simp
      have "AmountOf bs (Denom b) = 0" "AmountOf as (Denom a) = 0"
        using aa bb by (auto intro: AmountOf_above)
      with False F2 3 sa sb eq na show ?thesis by auto
    qed
  qed
qed (simp_all add: AmountOf_absent)

subsection \<open>Plus and Minus\<close>

lemma sorted_Plus:
  "sorted_denoms as \<Longrightarrow> sorted_denoms bs \<Longrightarrow> sorted_denoms (Plus as bs)"
  by (simp add: Plus_def sorted_strip_zeros sorted_merge_coins)

lemma AmountOf_Plus:
  "sorted_denoms as \<Longrightarrow> sorted_denoms bs \<Longrightarrow>
   AmountOf (Plus as bs) denom = AmountOf as denom + AmountOf bs denom"
  by (simp add: Plus_def AmountOf_strip_zeros sorted_merge_coins AmountOf_merge_coins)

lemma normal_form_sorted: "normal_form cs \<Longrightarrow> sorted_denoms cs"
  by (simp add: normal_form_def)

lemma normal_form_iff:
  "normal_form cs \<longleftrightarrow> sorted_denoms cs \<and> (\<forall>c\<in>set cs. 0 < Amount c)"
  by (simp add: normal_form_def all_positive_iff)

lemma normal_form_strip_zeros:
  "sorted_denoms cs \<Longrightarrow> \<forall>denom. 0 \<le> AmountOf cs denom \<Longrightarrow> normal_form (strip_zeros cs)"
proof -
  assume s: "sorted_denoms cs" and n: "\<forall>denom. 0 \<le> AmountOf cs denom"
  from n have "\<not> (\<exists>denom. AmountOf cs denom < 0)" by (simp add: not_less)
  with s have "\<not> any_negative cs" by (simp add: any_negative_AmountOf)
  with s show ?thesis
    by (simp add: normal_form_def sorted_strip_zeros all_positive_strip_zeros)
qed

lemma normal_form_Plus:
  assumes "sorted_denoms as" "sorted_denoms bs"
    and "\<forall>denom. 0 \<le> AmountOf as denom + AmountOf bs denom"
  shows "normal_form (Plus as bs)"
  unfolding Plus_def
  by (rule normal_form_strip_zeros)
     (simp_all add: assms sorted_merge_coins AmountOf_merge_coins)

lemma Minus_Inr:
  assumes "sorted_denoms as" "sorted_denoms bs" "Minus as bs = Inr r"
  shows "normal_form r"
    and "AmountOf r denom =
           (if denom \<in> Denom ` set as then AmountOf as denom - AmountOf bs denom else 0)"
proof -
  let ?d = "subtract_coins as bs"
  have sd: "sorted_denoms ?d" using assms(1) by (rule sorted_subtract_coins)
  from assms(3) have nn: "\<not> any_negative ?d" and r: "r = strip_zeros ?d"
    by (auto simp: Minus_def Let_def split: if_splits)
  from nn sd have "\<forall>denom. 0 \<le> AmountOf ?d denom"
    by (simp add: any_negative_AmountOf not_less)
  with sd show "normal_form r" unfolding r by (rule normal_form_strip_zeros)
  show "AmountOf r denom =
           (if denom \<in> Denom ` set as then AmountOf as denom - AmountOf bs denom else 0)"
    unfolding r by (simp only: AmountOf_strip_zeros [OF sd] AmountOf_subtract_coins [OF assms(1,2)])
qed

lemma Minus_cases:
  assumes "sorted_denoms as" "sorted_denoms bs"
  shows "Minus as bs =
     (if \<exists>denom \<in> Denom ` set as. AmountOf as denom < AmountOf bs denom
      then Inl NegativeResult else Inr (strip_zeros (subtract_coins as bs)))"
proof -
  have "any_negative (subtract_coins as bs) \<longleftrightarrow>
        (\<exists>denom. AmountOf (subtract_coins as bs) denom < 0)"
    using assms(1) by (intro any_negative_AmountOf sorted_subtract_coins)
  also have "\<dots> \<longleftrightarrow> (\<exists>denom \<in> Denom ` set as. AmountOf as denom < AmountOf bs denom)"
    by (simp only: AmountOf_subtract_coins [OF assms]) (auto split: if_splits)
  finally show ?thesis by (simp add: Minus_def Let_def)
qed

lemma Minus_succeeds:
  assumes "sorted_denoms as" "sorted_denoms bs"
    and "\<forall>denom. AmountOf bs denom \<le> AmountOf as denom \<or> denom \<notin> Denom ` set as"
  shows "\<exists>r. Minus as bs = Inr r"
  using assms(3) by (auto simp: Minus_cases [OF assms(1,2)] not_less)

lemma normal_form_ext:
  "normal_form as \<Longrightarrow> normal_form bs \<Longrightarrow>
   (\<And>denom. AmountOf as denom = AmountOf bs denom) \<Longrightarrow> as = bs"
proof (induction as arbitrary: bs)
  case Nil
  show ?case
  proof (cases bs)
    case (Cons b bs')
    with Nil.prems(2) have "0 < AmountOf bs (Denom b)" by (simp add: normal_form_iff)
    with Nil.prems(3) [of "Denom b"] show ?thesis by simp
  qed simp
next
  case (Cons a as)
  from Cons.prems(1) have pa: "0 < Amount a" and sa: "sorted_denoms (a # as)"
    and na: "normal_form as" and aa: "\<forall>c\<in>set as. Denom a < Denom c"
    by (auto simp: normal_form_iff sorted_denoms_Cons)
  show ?case
  proof (cases bs)
    case Nil
    with Cons.prems(3) [of "Denom a"] pa show ?thesis by simp
  next
    case (Cons b bs')
    from Cons Cons.prems(2) have pb: "0 < Amount b" and nb: "normal_form bs'"
      and bb: "\<forall>c\<in>set bs'. Denom b < Denom c"
      by (auto simp: normal_form_iff sorted_denoms_Cons)
    have eqd: "Denom a = Denom b"
    proof (rule ccontr)
      assume ne: "Denom a \<noteq> Denom b"
      show False
      proof (cases "Denom a < Denom b")
        case True
        then have "AmountOf bs (Denom a) = 0"
          using bb Cons ne by (auto intro!: AmountOf_above [of bs' "Denom b"])
        with Cons.prems(3) [of "Denom a"] pa show False by simp
      next
        case False
        with ne have lt: "Denom b < Denom a" by simp
        then have "AmountOf (a # as) (Denom b) = 0"
          using aa ne by (auto intro!: AmountOf_above [of as "Denom a"])
        with Cons.prems(3) [of "Denom b"] pb Cons show False by simp
      qed
    qed
    from Cons.prems(3) [of "Denom a"] Cons eqd have eqa: "Amount a = Amount b" by simp
    have "as = bs'"
    proof (rule Cons.IH [OF na nb])
      fix denom
      show "AmountOf as denom = AmountOf bs' denom"
      proof (cases "denom = Denom a")
        case True
        then have "AmountOf as denom = 0" "AmountOf bs' denom = 0"
          using aa bb eqd by (auto intro: AmountOf_above)
        then show ?thesis by simp
      next
        case False
        with Cons.prems(3) [of denom] Cons eqd show ?thesis by simp
      qed
    qed
    with eqd eqa Cons show ?thesis by (simp add: Coin.expand)
  qed
qed

lemma normal_form_single: "0 < amount \<Longrightarrow> normal_form [Coin denom amount]"
  by (simp add: normal_form_def)

lemma AmountOf_single:
  "AmountOf [Coin denom amount] d = (if denom = d then amount else 0)"
  by simp

section \<open>The vesting schedule\<close>

subsection \<open>Decimals\<close>

lemma precision_pos: "0 < precision"
  by (simp add: precision_def)

lemma round_quot_mono:
  assumes "0 < d" "n \<le> m"
  shows "round_quot n d \<le> round_quot m d"
proof -
  have d2: "0 < 2 * d" using assms(1) by simp
  consider "0 \<le> n" | "n < 0" "0 \<le> m" | "m < 0" using assms(2) by linarith
  then show ?thesis
  proof cases
    case 1
    then have "0 \<le> m" using assms(2) by simp
    moreover have "(2 * n + d) div (2 * d) \<le> (2 * m + d) div (2 * d)"
      using assms d2 by (intro zdiv_mono1) simp_all
    ultimately show ?thesis using 1 by (simp add: round_quot_def)
  next
    case 2
    have "0 \<le> (2 * (- n) + d) div (2 * d)" "0 \<le> (2 * m + d) div (2 * d)"
      using 2 assms(1) by (simp_all add: pos_imp_zdiv_nonneg_iff)
    then show ?thesis using 2 by (simp add: round_quot_def)
  next
    case 3
    then have "n < 0" using assms(2) by simp
    moreover have "(2 * (- m) + d) div (2 * d) \<le> (2 * (- n) + d) div (2 * d)"
      using assms d2 by (intro zdiv_mono1) simp_all
    ultimately show ?thesis using 3 by (simp add: round_quot_def)
  qed
qed

lemma round_quot_exact:
  assumes "0 < d"
  shows "round_quot (k * d) d = k"
proof -
  have *: "(2 * (j * d) + d) div (2 * d) = j" for j
  proof -
    have "(2 * (j * d) + d) div (2 * d) = (d + j * (2 * d)) div (2 * d)"
      by (simp add: algebra_simps)
    also have "\<dots> = d div (2 * d) + j"
      using assms by (subst div_mult_self1) simp_all
    also have "d div (2 * d) = 0" using assms by simp
    finally show ?thesis by simp
  qed
  show ?thesis
  proof (cases "0 \<le> k * d")
    case True
    then show ?thesis by (simp add: round_quot_def *)
  next
    case False
    have "(2 * (- (k * d)) + d) div (2 * d) = - k"
      using * [of "- k"] by simp
    with False show ?thesis by (simp add: round_quot_def)
  qed
qed

lemma round_quot_nonneg: "0 < d \<Longrightarrow> 0 \<le> n \<Longrightarrow> 0 \<le> round_quot n d"
  using round_quot_mono [of d 0 n] round_quot_exact [of d 0] by simp

lemma vestedAmt_eq: "vestedAmt s amount = round_quot (amount * raw s) precision"
proof -
  have "round_quot (amount * precision * raw s) precision = amount * raw s"
    using round_quot_exact [OF precision_pos, of "amount * raw s"]
    by (simp add: mult.assoc mult.left_commute mult.commute)
  then show ?thesis
    by (simp add: vestedAmt_def RoundInt_def Mul_def NewDecFromInt_def)
qed

lemma vestedAmt_zero: "vestedAmt s 0 = 0"
  using round_quot_exact [OF precision_pos, of 0] by (simp add: vestedAmt_eq)

lemma vestedAmt_mono:
  "0 \<le> amount \<Longrightarrow> raw s \<le> raw s' \<Longrightarrow> vestedAmt s amount \<le> vestedAmt s' amount"
  unfolding vestedAmt_eq
  by (intro round_quot_mono precision_pos mult_left_mono)

lemma vestedAmt_nonneg: "0 \<le> amount \<Longrightarrow> 0 \<le> raw s \<Longrightarrow> 0 \<le> vestedAmt s amount"
  unfolding vestedAmt_eq by (intro round_quot_nonneg precision_pos) simp

lemma vestedAmt_one: "vestedAmt (Dec precision) amount = amount"
  unfolding vestedAmt_eq using round_quot_exact [OF precision_pos, of amount] by simp

lemma vestedAmt_le:
  assumes "0 \<le> amount" "raw s \<le> precision"
  shows "vestedAmt s amount \<le> amount"
  using vestedAmt_mono [of amount s "Dec precision"] assms by (simp add: vestedAmt_one)

text \<open>The scalar of the schedule, as an integer function of the two differences.\<close>

lemma Quo_NewDec:
  assumes "0 < sint y"
  shows "Quo (NewDec x) (NewDec y) =
           Inr (Dec (round_quot (sint x * precision * precision) (sint y * precision)))"
proof -
  have "0 < sint y * precision" using assms precision_pos by simp
  moreover have "sint y \<noteq> 0" "precision \<noteq> 0" using assms precision_pos by simp_all
  ultimately show ?thesis by (simp add: Quo_def NewDec_def)
qed

lemma scalar_mono:
  assumes "0 < sint y" "sint x \<le> sint x'"
  shows "round_quot (sint x * precision * precision) (sint y * precision)
       \<le> round_quot (sint x' * precision * precision) (sint y * precision)"
  using assms precision_pos by (intro round_quot_mono mult_right_mono) simp_all

lemma scalar_nonneg:
  assumes "0 < sint y" "0 \<le> sint x"
  shows "0 \<le> round_quot (sint x * precision * precision) (sint y * precision)"
  using assms precision_pos by (intro round_quot_nonneg) simp_all

lemma scalar_one:
  assumes "0 < sint y"
  shows "round_quot (sint y * precision * precision) (sint y * precision) = precision"
  using round_quot_exact [of "sint y * precision" precision] assms precision_pos
  by (simp add: mult.assoc mult.left_commute mult.commute)

lemma sint_diff_no_wrap:
  fixes a b :: "64 word"
  assumes "sint b \<le> sint a" "sint a - sint b < 2 ^ 63"
  shows "sint (a - b) = sint a - sint b"
proof -
  have "- (2 ^ 63) \<le> sint a - sint b" using assms(1) by simp
  then show ?thesis
    using assms(2) by (simp add: sint_word_diff signed_take_bit_int_eq_self)
qed

subsection \<open>The vested coins\<close>

lemma sorted_GetVestedCoins_loop:
  "sorted_denoms vestedCoins \<Longrightarrow> sorted_denoms (GetVestedCoins_loop s vestedCoins ov)"
  by (induction ov arbitrary: vestedCoins) (simp_all add: sorted_Plus NewCoin_def)

lemma AmountOf_GetVestedCoins_loop:
  "sorted_denoms vestedCoins \<Longrightarrow> sorted_denoms ov \<Longrightarrow>
   AmountOf (GetVestedCoins_loop s vestedCoins ov) denom =
     AmountOf vestedCoins denom + vestedAmt s (AmountOf ov denom)"
proof (induction ov arbitrary: vestedCoins)
  case Nil
  show ?case by (simp add: vestedAmt_zero)
next
  case (Cons ovc rest)
  let ?vc = "Plus vestedCoins [NewCoin (Denom ovc) (vestedAmt s (Amount ovc))]"
  from Cons.prems have sr: "sorted_denoms rest"
    and ab: "\<forall>c\<in>set rest. Denom ovc < Denom c"
    by (simp_all add: sorted_denoms_Cons)
  have s1: "sorted_denoms ?vc" using Cons.prems(1) by (simp add: sorted_Plus NewCoin_def)
  have a1: "AmountOf ?vc denom =
      AmountOf vestedCoins denom + (if Denom ovc = denom then vestedAmt s (Amount ovc) else 0)"
    using Cons.prems(1) by (simp add: AmountOf_Plus NewCoin_def)
  have "AmountOf (GetVestedCoins_loop s vestedCoins (ovc # rest)) denom =
        AmountOf ?vc denom + vestedAmt s (AmountOf rest denom)"
    using Cons.IH [OF s1 sr] by simp
  also have "\<dots> = AmountOf vestedCoins denom + vestedAmt s (AmountOf (ovc # rest) denom)"
  proof (cases "Denom ovc = denom")
    case True
    then have "AmountOf rest denom = 0" using ab by (auto intro: AmountOf_above)
    with True a1 show ?thesis by (simp add: vestedAmt_zero)
  next
    case False
    with a1 show ?thesis by simp
  qed
  finally show ?case .
qed

lemma GetVestedCoins_before_start:
  "sint blockTime \<le> sint (startTime cva) \<Longrightarrow> GetVestedCoins cva blockTime = Inr []"
  by (simp add: GetVestedCoins_def)

lemma GetVestedCoins_after_start:
  assumes "sint (startTime cva) < sint blockTime"
    and "0 < sint (endTime cva - startTime cva)"
  shows "GetVestedCoins cva blockTime =
           Inr (GetVestedCoins_loop (scalar cva blockTime) [] (originalVesting cva))"
  using assms by (simp add: GetVestedCoins_def Let_def Quo_NewDec scalar_def)

lemma AmountOf_GetVestedCoins_after_start:
  assumes "sorted_denoms (originalVesting cva)"
    and "sint (startTime cva) < sint blockTime"
    and "0 < sint (endTime cva - startTime cva)"
  shows "\<exists>v. GetVestedCoins cva blockTime = Inr v \<and> sorted_denoms v \<and>
           (\<forall>denom. AmountOf v denom =
              vestedAmt (scalar cva blockTime) (AmountOf (originalVesting cva) denom))"
  using assms
  by (simp add: GetVestedCoins_after_start sorted_GetVestedCoins_loop
        AmountOf_GetVestedCoins_loop)

section \<open>Spendable coins and the tracking loops\<close>

lemma MinInt_min: "MinInt a b = min a b"
  by (simp add: MinInt_def min_def)

lemma MaxInt_max: "MaxInt a b = max a b"
  by (simp add: MaxInt_def max_def)

lemma subtract_coins_Nil2: "subtract_coins as [] = as"
  by (cases as) simp_all

lemma Minus_Nil2: "normal_form as \<Longrightarrow> Minus as [] = Inr as"
proof -
  assume n: "normal_form as"
  then have "\<not> any_negative as" by (auto simp: normal_form_iff any_negative_iff)
  moreover have "all_positive as \<Longrightarrow> strip_zeros as = as"
    by (induction as) auto
  then have "strip_zeros as = as" using n by (simp add: normal_form_def)
  ultimately show ?thesis by (simp add: Minus_def subtract_coins_Nil2)
qed

lemma Minus_error: "Minus as bs = Inl e \<Longrightarrow> e = NegativeResult"
  by (auto simp: Minus_def Let_def split: if_splits)

lemma scalar_bounds:
  assumes after: "sint (startTime cva) < sint blockTime"
    and upto: "sint blockTime \<le> sint (endTime cva)"
    and fit: "sint (endTime cva) - sint (startTime cva) < 2 ^ 63"
  shows "0 < sint (endTime cva - startTime cva)"
    and "0 \<le> raw (scalar cva blockTime)"
    and "raw (scalar cva blockTime) \<le> precision"
proof -
  have y: "sint (endTime cva - startTime cva) = sint (endTime cva) - sint (startTime cva)"
    using after upto fit by (intro sint_diff_no_wrap) simp_all
  have x: "sint (blockTime - startTime cva) = sint blockTime - sint (startTime cva)"
    using after upto fit by (intro sint_diff_no_wrap) simp_all
  show ypos: "0 < sint (endTime cva - startTime cva)" using y after upto by simp
  show "0 \<le> raw (scalar cva blockTime)"
    unfolding scalar_def Dec.sel using ypos x after by (intro scalar_nonneg) simp_all
  have "raw (scalar cva blockTime)
      \<le> round_quot (sint (endTime cva - startTime cva) * precision * precision)
           (sint (endTime cva - startTime cva) * precision)"
    unfolding scalar_def Dec.sel using ypos x y upto by (intro scalar_mono) simp_all
  then show "raw (scalar cva blockTime) \<le> precision"
    by (simp only: scalar_one [OF ypos])
qed

lemma GetVestingCoins_returns:
  assumes ov: "normal_form (originalVesting cva)"
    and time: "sint blockTime \<le> sint (startTime cva) \<or>
               (sint (startTime cva) < sint (endTime cva) \<and>
                sint (endTime cva) - sint (startTime cva) < 2 ^ 63 \<and>
                sint blockTime \<le> sint (endTime cva))"
  shows "\<exists>v. GetVestingCoins cva blockTime = Inr v"
proof (cases "sint blockTime \<le> sint (startTime cva)")
  case True
  then show ?thesis
    by (simp add: GetVestingCoins_def GetVestedCoins_before_start Minus_Nil2 [OF ov])
next
  case False
  with time have after: "sint (startTime cva) < sint blockTime"
    and fit: "sint (endTime cva) - sint (startTime cva) < 2 ^ 63"
    and upto: "sint blockTime \<le> sint (endTime cva)" by simp_all
  note sb = scalar_bounds [OF after upto fit]
  have so: "sorted_denoms (originalVesting cva)" using ov by (rule normal_form_sorted)
  from AmountOf_GetVestedCoins_after_start [OF so after sb(1)]
  obtain vested where vd: "GetVestedCoins cva blockTime = Inr vested"
    and sv: "sorted_denoms vested"
    and av: "\<And>denom. AmountOf vested denom =
               vestedAmt (scalar cva blockTime) (AmountOf (originalVesting cva) denom)"
    by blast
  have "AmountOf vested denom \<le> AmountOf (originalVesting cva) denom" for denom
    unfolding av using normal_form_nonneg [OF ov] sb(3) by (intro vestedAmt_le)
  then have "\<exists>v. Minus (originalVesting cva) vested = Inr v"
    using so sv by (intro Minus_succeeds) simp_all
  with vd show ?thesis by (simp add: GetVestingCoins_def)
qed

lemma no_zero_Plus: "0 \<notin> Amount ` set (Plus as bs)"
  by (auto simp: Plus_def set_strip_zeros)

lemma SpendableCoins_loop_result:
  assumes "sorted_denoms spendableCoins" "sorted_denoms bc"
    and "0 \<notin> Amount ` set spendableCoins"
  shows "sorted_denoms (SpendableCoins_loop dv v spendableCoins bc)
     \<and> 0 \<notin> Amount ` set (SpendableCoins_loop dv v spendableCoins bc)
     \<and> AmountOf (SpendableCoins_loop dv v spendableCoins bc) denom =
         AmountOf spendableCoins denom +
         (if denom \<in> Denom ` set bc
          then min (AmountOf bc denom + AmountOf dv denom - AmountOf v denom)
                 (AmountOf bc denom)
          else 0)"
  using assms
proof (induction bc arbitrary: spendableCoins)
  case Nil
  then show ?case by simp
next
  case (Cons coin rest)
  let ?m = "min (Amount coin + AmountOf dv (Denom coin) - AmountOf v (Denom coin))
              (Amount coin)"
  let ?sc = "Plus spendableCoins [Coin (Denom coin) ?m]"
  from Cons.prems have sr: "sorted_denoms rest"
    and ab: "\<forall>c\<in>set rest. Denom coin < Denom c"
    by (simp_all add: sorted_denoms_Cons)
  have notin: "Denom coin \<notin> Denom ` set rest" using ab by auto
  have s1: "sorted_denoms ?sc" using Cons.prems(1) by (simp add: sorted_Plus)
  have a1: "AmountOf ?sc denom =
      AmountOf spendableCoins denom + (if Denom coin = denom then ?m else 0)"
    using Cons.prems(1) by (simp add: AmountOf_Plus)
  show ?case
  proof (cases "?m = 0")
    case True
    then have step: "SpendableCoins_loop dv v spendableCoins (coin # rest) =
                 SpendableCoins_loop dv v spendableCoins rest"
      by (simp add: Let_def IsZero_def NewCoin_def MinInt_min)
    from Cons.IH [OF Cons.prems(1) sr Cons.prems(3)] True notin show ?thesis
      unfolding step by auto
  next
    case False
    then have step: "SpendableCoins_loop dv v spendableCoins (coin # rest) =
                 SpendableCoins_loop dv v ?sc rest"
      by (simp add: Let_def IsZero_def NewCoin_def MinInt_min)
    from Cons.IH [OF s1 sr no_zero_Plus] a1 notin show ?thesis
      unfolding step by auto
  qed
qed

lemma normal_form_Plus_single:
  assumes "normal_form as" "0 \<le> amount"
  shows "normal_form (Plus as [Coin denom amount])"
    and "AmountOf (Plus as [Coin denom amount]) d =
           AmountOf as d + (if d = denom then amount else 0)"
proof -
  have s: "sorted_denoms as" using assms(1) by (rule normal_form_sorted)
  have "0 \<le> AmountOf as d + AmountOf [Coin denom amount] d" for d
    using normal_form_nonneg [OF assms(1), of d] assms(2) by simp
  then show "normal_form (Plus as [Coin denom amount])"
    using s by (intro normal_form_Plus) simp_all
  show "AmountOf (Plus as [Coin denom amount]) d =
           AmountOf as d + (if d = denom then amount else 0)"
    using s by (auto simp: AmountOf_Plus)
qed

lemma Minus_single:
  assumes "normal_form as" "0 \<le> amount" "amount \<le> AmountOf as denom"
  shows "\<exists>r. Minus as [Coin denom amount] = Inr r \<and> normal_form r \<and>
           (\<forall>d. AmountOf r d = AmountOf as d - (if d = denom then amount else 0))"
proof -
  have s: "sorted_denoms as" using assms(1) by (rule normal_form_sorted)
  have s1: "sorted_denoms [Coin denom amount]" by simp
  have "AmountOf [Coin denom amount] d \<le> AmountOf as d" for d
    using normal_form_nonneg [OF assms(1), of d] assms(3) by auto
  then have "\<exists>r. Minus as [Coin denom amount] = Inr r"
    using s s1 by (intro Minus_succeeds) blast+
  then obtain r where r: "Minus as [Coin denom amount] = Inr r" ..
  have "AmountOf r d = AmountOf as d - (if d = denom then amount else 0)" for d
  proof (cases "d \<in> Denom ` set as")
    case True
    then show ?thesis using Minus_Inr(2) [OF s s1 r, of d] by auto
  next
    case False
    then have z: "AmountOf as d = 0" by (rule AmountOf_absent)
    with assms(2,3) have "d = denom \<Longrightarrow> amount = 0" by simp
    with False z show ?thesis using Minus_Inr(2) [OF s s1 r, of d] by auto
  qed
  with r Minus_Inr(1) [OF s s1 r] show ?thesis by blast
qed

lemma Minus_single_fails:
  assumes "normal_form as" "0 < AmountOf as denom" "AmountOf as denom < amount"
  shows "Minus as [Coin denom amount] = Inl NegativeResult"
proof -
  have s: "sorted_denoms as" using assms(1) by (rule normal_form_sorted)
  have s1: "sorted_denoms [Coin denom amount]" by simp
  have "denom \<in> Denom ` set as"
    using assms(1,2) by (simp add: normal_form_present)
  with assms(3) have "\<exists>d \<in> Denom ` set as. AmountOf as d < AmountOf [Coin denom amount] d"
    by (intro bexI [of _ denom]) simp_all
  then show ?thesis by (simp only: Minus_cases [OF s s1] if_True)
qed

subsection \<open>The delegation loop\<close>


lemma Plus_zero_coin: "normal_form as \<Longrightarrow> Plus as [Coin denom 0] = as"
proof (rule normal_form_ext)
  assume n: "normal_form as"
  show "normal_form (Plus as [Coin denom 0])"
    using normal_form_Plus_single(1) [OF n, of 0 denom] by simp
  show "normal_form as" by fact
  show "AmountOf (Plus as [Coin denom 0]) d = AmountOf as d" for d
    using normal_form_Plus_single(2) [OF n, of 0 denom d] by simp
qed

subsection \<open>The undelegation loop\<close>

lemma TrackUndelegation_loop_Cons:
  assumes "Amount coin \<noteq> 0"
    and "x = MinInt (AmountOf (delegatedFree cva) (Denom coin)) (Amount coin)"
    and "(if x \<noteq> 0 then Minus (delegatedFree cva) [NewCoin (Denom coin) x]
          else Inr (delegatedFree cva)) = Inr df"
    and "(if Amount coin - x \<noteq> 0
          then Minus (delegatedVesting cva) [NewCoin (Denom coin) (Amount coin - x)]
          else Inr (delegatedVesting cva)) = Inr dv"
  shows "TrackUndelegation_loop bc cva (coin # rest) =
           TrackUndelegation_loop bc
             (cva\<lparr>delegatedFree := df, delegatedVesting := dv, Coins := Plus bc [coin]\<rparr>) rest"
  using assms(1,3,4) unfolding assms(2) by (auto simp: Let_def split: if_splits)



lemma normal_form_amounts:
  assumes "normal_form amount" "c \<in> set amount"
  shows "0 < Amount c" and "AmountOf amount (Denom c) = Amount c"
  using assms by (auto simp: normal_form_iff AmountOf_member)

lemma Minus_single_absent:
  assumes "normal_form as" "AmountOf as denom = 0"
  shows "Minus as [Coin denom amount] = Inr as"
proof -
  have s: "sorted_denoms as" using assms(1) by (rule normal_form_sorted)
  have s1: "sorted_denoms [Coin denom amount]" by simp
  have absent: "denom \<notin> Denom ` set as"
    using assms by (simp add: normal_form_present)
  have nn: "0 \<le> AmountOf as d" for d using assms(1) by (rule normal_form_nonneg)
  have "\<forall>d. AmountOf [Coin denom amount] d \<le> AmountOf as d \<or> d \<notin> Denom ` set as"
    using absent nn by auto
  with s s1 have "\<exists>r. Minus as [Coin denom amount] = Inr r"
    by (rule Minus_succeeds)
  then obtain r where r: "Minus as [Coin denom amount] = Inr r" ..
  have "r = as"
  proof (rule normal_form_ext)
    show "normal_form r" using s s1 r by (rule Minus_Inr)
    show "normal_form as" by fact
    show "AmountOf r d = AmountOf as d" for d
      using Minus_Inr(2) [OF s s1 r, of d] absent AmountOf_absent [of d as] by auto
  qed
  with r show ?thesis by simp
qed

lemma TrackUndelegation_loop_Cons_fails:
  assumes "Amount coin \<noteq> 0"
    and "x = MinInt (AmountOf (delegatedFree cva) (Denom coin)) (Amount coin)"
    and "(if x \<noteq> 0 then Minus (delegatedFree cva) [NewCoin (Denom coin) x]
          else Inr (delegatedFree cva)) = Inr df"
    and "Amount coin - x \<noteq> 0"
    and "Minus (delegatedVesting cva) [NewCoin (Denom coin) (Amount coin - x)] = Inl e"
  shows "TrackUndelegation_loop bc cva (coin # rest) = Inl (e, cva\<lparr>delegatedFree := df\<rparr>)"
  using assms(1,3,4,5) unfolding assms(2) by (auto simp: Let_def split: if_splits)

lemma drain_delegatedFree:
  assumes df: "normal_form (delegatedFree cva)" and pos: "0 < Amount coin"
  shows "\<exists>df1.
      (if min (AmountOf (delegatedFree cva) (Denom coin)) (Amount coin) \<noteq> 0
       then Minus (delegatedFree cva)
              [NewCoin (Denom coin)
                 (min (AmountOf (delegatedFree cva) (Denom coin)) (Amount coin))]
       else Inr (delegatedFree cva)) = Inr df1
      \<and> normal_form df1
      \<and> (\<forall>d. AmountOf df1 d = AmountOf (delegatedFree cva) d
               - (if d = Denom coin
                  then min (AmountOf (delegatedFree cva) (Denom coin)) (Amount coin)
                  else 0))"
proof -
  let ?x = "min (AmountOf (delegatedFree cva) (Denom coin)) (Amount coin)"
  have nn: "0 \<le> AmountOf (delegatedFree cva) (Denom coin)"
    using df by (rule normal_form_nonneg)
  have x0: "0 \<le> ?x" "?x \<le> AmountOf (delegatedFree cva) (Denom coin)"
    using pos nn by simp_all
  show ?thesis
  proof (cases "?x = 0")
    case True
    with df show ?thesis by simp
  next
    case False
    from Minus_single [OF df x0] False show ?thesis by (simp add: NewCoin_def)
  qed
qed

lemma TrackUndelegation_loop_fails:
  assumes "normal_form (delegatedFree cva)" "normal_form (delegatedVesting cva)"
    and "sorted_denoms amount" "\<forall>c\<in>set amount. 0 < Amount c"
    and "coin \<in> set amount"
    and "AmountOf (delegatedVesting cva) (Denom coin)
           < Amount coin - min (AmountOf (delegatedFree cva) (Denom coin)) (Amount coin)"
    and "0 < AmountOf (delegatedVesting cva) (Denom coin)"
  shows "\<exists>df' dv' c'.
           TrackUndelegation_loop bc cva amount =
             Inl (NegativeResult,
                  cva\<lparr>delegatedFree := df', delegatedVesting := dv', Coins := c'\<rparr>)"
  using assms
proof (induction amount arbitrary: cva)
  case Nil
  then show ?case by simp
next
  case (Cons a rest)
  let ?da = "Denom a"
  let ?x = "min (AmountOf (delegatedFree cva) ?da) (Amount a)"
  let ?y = "Amount a - ?x"
  from Cons.prems have pos: "0 < Amount a" by simp
  from Cons.prems have sr: "sorted_denoms rest"
    and ab: "\<forall>c\<in>set rest. ?da < Denom c"
    and rest_pos: "\<forall>c\<in>set rest. 0 < Amount c"
    by (simp_all add: sorted_denoms_Cons)
  from drain_delegatedFree [OF Cons.prems(1) pos]
  obtain df1 where df1: "(if ?x \<noteq> 0 then Minus (delegatedFree cva) [NewCoin ?da ?x]
                          else Inr (delegatedFree cva)) = Inr df1"
    and ndf: "normal_form df1"
    and adf: "\<And>d. AmountOf df1 d = AmountOf (delegatedFree cva) d
                 - (if d = ?da then ?x else 0)"
    by blast
  have xm: "?x = MinInt (AmountOf (delegatedFree cva) ?da) (Amount a)"
    by (simp only: MinInt_min)
  have a0: "Amount a \<noteq> 0" using pos by simp
  have nn: "0 \<le> AmountOf (delegatedVesting cva) ?da"
    using Cons.prems(2) by (rule normal_form_nonneg)
  show ?case
  proof (cases "0 < AmountOf (delegatedVesting cva) ?da
                \<and> AmountOf (delegatedVesting cva) ?da < ?y")
    case True
    then have y0: "?y \<noteq> 0" using nn by linarith
    have "Minus (delegatedVesting cva) [NewCoin ?da ?y] = Inl NegativeResult"
      unfolding NewCoin_def using Cons.prems(2) True
      by (intro Minus_single_fails) simp_all
    from TrackUndelegation_loop_Cons_fails [OF a0 xm df1 y0 this]
    have "TrackUndelegation_loop bc cva (a # rest)
            = Inl (NegativeResult,
                   cva\<lparr>delegatedFree := df1, delegatedVesting := delegatedVesting cva,
                       Coins := Coins cva\<rparr>)"
      by simp
    then show ?thesis by blast
  next
    case False
    with Cons.prems(6,7) have ne: "a \<noteq> coin" by auto
    with Cons.prems(5) have cr: "coin \<in> set rest" by simp
    with ab have dne: "Denom coin \<noteq> ?da" by auto
    have "\<exists>dv1. (if ?y \<noteq> 0 then Minus (delegatedVesting cva) [NewCoin ?da ?y]
                  else Inr (delegatedVesting cva)) = Inr dv1
             \<and> normal_form dv1
             \<and> AmountOf dv1 (Denom coin) = AmountOf (delegatedVesting cva) (Denom coin)"
    proof (cases "?y = 0")
      case True
      with Cons.prems(2) show ?thesis by simp
    next
      case y: False
      show ?thesis
      proof (cases "AmountOf (delegatedVesting cva) ?da = 0")
        case True
        from Minus_single_absent [OF Cons.prems(2) True] y Cons.prems(2)
        show ?thesis by (simp add: NewCoin_def)
      next
        case F: False
        with False nn have le: "?y \<le> AmountOf (delegatedVesting cva) ?da" by linarith
        have y0: "0 \<le> ?y" by simp
        from Minus_single [OF Cons.prems(2) y0 le] y dne
        show ?thesis by (auto simp: NewCoin_def)
      qed
    qed
    then obtain dv1 where
      dv1: "(if ?y \<noteq> 0 then Minus (delegatedVesting cva) [NewCoin ?da ?y]
             else Inr (delegatedVesting cva)) = Inr dv1"
      and ndv: "normal_form dv1"
      and adv: "AmountOf dv1 (Denom coin) = AmountOf (delegatedVesting cva) (Denom coin)"
      by blast
    let ?cva' = "cva\<lparr>delegatedFree := df1, delegatedVesting := dv1, Coins := Plus bc [a]\<rparr>"
    have step: "TrackUndelegation_loop bc cva (a # rest) = TrackUndelegation_loop bc ?cva' rest"
      using a0 xm df1 dv1 by (rule TrackUndelegation_loop_Cons)
    have "\<exists>df' dv' c'.
           TrackUndelegation_loop bc ?cva' rest =
             Inl (NegativeResult,
                  ?cva'\<lparr>delegatedFree := df', delegatedVesting := dv', Coins := c'\<rparr>)"
      using ndf ndv sr rest_pos cr Cons.prems(6,7) adf [of "Denom coin"] adv dne
      by (intro Cons.IH) simp_all
    then show ?thesis unfolding step by simp
  qed
qed

subsection \<open>Delayed vesting, as specified\<close>

lemma denoms_spendable_per_spec:
  "Denom ` set (spendable_per_spec dv v bc) \<subseteq> Denom ` set bc"
  by (induction bc) (auto simp: Let_def)

lemma AmountOf_spendable_per_spec:
  "sorted_denoms bc \<Longrightarrow>
   AmountOf (spendable_per_spec dv v bc) d =
     (if d \<in> Denom ` set bc
      then min (max (AmountOf bc d + AmountOf dv d - AmountOf v d) 0) (AmountOf bc d)
      else 0)"
proof (induction bc)
  case Nil
  show ?case by simp
next
  case (Cons coin rest)
  from Cons.prems have sr: "sorted_denoms rest"
    and ab: "\<forall>c\<in>set rest. Denom coin < Denom c"
    by (simp_all add: sorted_denoms_Cons)
  have notin: "Denom coin \<notin> Denom ` set rest" using ab by auto
  then have "Denom coin \<notin> Denom ` set (spendable_per_spec dv v rest)"
    using denoms_spendable_per_spec by blast
  then have z: "AmountOf (spendable_per_spec dv v rest) (Denom coin) = 0"
    by (rule AmountOf_absent)
  show ?case
  proof (cases "d = Denom coin")
    case True
    with z show ?thesis by (simp add: Let_def MinInt_min MaxInt_max)
  next
    case False
    with Cons.IH [OF sr] show ?thesis by (simp add: Let_def MinInt_min MaxInt_max)
  qed
qed

lemma spendable_per_spec_all:
  "all_positive bc \<Longrightarrow> \<forall>d. 0 \<le> AmountOf dv d \<Longrightarrow> spendable_per_spec dv [] bc = bc"
  by (induction bc) (simp_all add: Let_def MinInt_min MaxInt_max)

lemma spendable_per_spec_none:
  "\<forall>c\<in>set bc. Amount c + AmountOf dv (Denom c) \<le> AmountOf v (Denom c) \<Longrightarrow>
   all_positive bc \<Longrightarrow> spendable_per_spec dv v bc = []"
  by (induction bc) (simp_all add: Let_def MinInt_min MaxInt_max)

lemma Minus_self: "normal_form as \<Longrightarrow> Minus as as = Inr []"
proof -
  assume n: "normal_form as"
  then have s: "sorted_denoms as" by (rule normal_form_sorted)
  have "\<forall>d. AmountOf as d \<le> AmountOf as d \<or> d \<notin> Denom ` set as" by simp
  with s s have "\<exists>r. Minus as as = Inr r" by (rule Minus_succeeds)
  then obtain r where r: "Minus as as = Inr r" ..
  have "r = []"
  proof (rule normal_form_ext)
    show "normal_form r" using s s r by (rule Minus_Inr)
    show "normal_form []" by (simp add: normal_form_def)
    show "AmountOf r d = AmountOf [] d" for d
      using Minus_Inr(2) [OF s s r, of d] by simp
  qed
  with r show ?thesis by simp
qed

subsection \<open>Delegating and undelegating the same amount\<close>


subsection \<open>Delegating a single coin\<close>


section \<open>Claims\<close>

subsection \<open>The schedule\<close>

text \<open>
  C3 (the code falls short of it): at and after the end time the vested coins should be
  the original vesting and the vesting coins zero. \<open>GetVestedCoins\<close> has no branch
  for block times after the end time and goes on scaling linearly: with 100 atom vesting
  from 0 to 100, at block time 150 it reports 150 atom vested, more than the account ever
  held, and the subtraction in \<open>GetVestingCoins\<close> has a negative result. At the end
  time itself the two values are as claimed.
\<close>

theorem C3_vested_exceeds_original_after_end:
  "GetVestedCoins seed_account 150 = Inr [Coin ''atom'' 150]
   \<and> GetVestingCoins seed_account 150 = Inl NegativeResult
   \<and> GetVestedCoins seed_account 100 = Inr [Coin ''atom'' 100]
   \<and> GetVestingCoins seed_account 100 = Inr []"
  by code_simp

text \<open>
  C7 (amended): the vested amount of every denomination grows with the block time,
  for an account whose original vesting is in normal form, whose start time is before
  its end time, and whose differences \<open>end - start\<close> and \<open>t\<^sub>2 - start\<close> fit the
  \<open>int64\<close> they are computed in. Both calls return. The block times are not bounded
  by the end time.
\<close>

theorem C7_vested_monotone:
  assumes nf: "normal_form (originalVesting cva)"
    and sched: "sint (startTime cva) < sint (endTime cva)"
    and fit_end: "sint (endTime cva) - sint (startTime cva) < 2 ^ 63"
    and fit_t: "sint t2 - sint (startTime cva) < 2 ^ 63"
    and le: "sint t1 \<le> sint t2"
  shows "\<exists>v1 v2. GetVestedCoins cva t1 = Inr v1 \<and> GetVestedCoins cva t2 = Inr v2 \<and>
           AmountOf v1 denom \<le> AmountOf v2 denom"
proof -
  let ?ov = "AmountOf (originalVesting cva) denom"
  have so: "sorted_denoms (originalVesting cva)" using nf by (rule normal_form_sorted)
  have ov: "0 \<le> ?ov" using nf by (rule normal_form_nonneg)
  have y: "sint (endTime cva - startTime cva) = sint (endTime cva) - sint (startTime cva)"
    using sched fit_end by (intro sint_diff_no_wrap) simp_all
  then have ypos: "0 < sint (endTime cva - startTime cva)" using sched by simp
  show ?thesis
  proof (cases "sint t2 \<le> sint (startTime cva)")
    case True
    with le have "sint t1 \<le> sint (startTime cva)" by simp
    with True show ?thesis by (simp add: GetVestedCoins_before_start)
  next
    case False
    then have after2: "sint (startTime cva) < sint t2" by simp
    have x2: "sint (t2 - startTime cva) = sint t2 - sint (startTime cva)"
      using after2 fit_t by (intro sint_diff_no_wrap) simp_all
    from AmountOf_GetVestedCoins_after_start [OF so after2 ypos]
    obtain v2 where v2: "GetVestedCoins cva t2 = Inr v2"
      and a2: "AmountOf v2 denom = vestedAmt (scalar cva t2) ?ov" by blast
    show ?thesis
    proof (cases "sint t1 \<le> sint (startTime cva)")
      case True
      have "0 \<le> raw (scalar cva t2)"
        unfolding scalar_def Dec.sel using ypos after2 x2 by (intro scalar_nonneg) simp_all
      with ov have "0 \<le> vestedAmt (scalar cva t2) ?ov" by (intro vestedAmt_nonneg)
      with True v2 a2 show ?thesis by (simp add: GetVestedCoins_before_start)
    next
      case False
      then have after1: "sint (startTime cva) < sint t1" by simp
      have x1: "sint (t1 - startTime cva) = sint t1 - sint (startTime cva)"
        using after1 fit_t le by (intro sint_diff_no_wrap) simp_all
      from AmountOf_GetVestedCoins_after_start [OF so after1 ypos]
      obtain v1 where v1: "GetVestedCoins cva t1 = Inr v1"
        and a1: "AmountOf v1 denom = vestedAmt (scalar cva t1) ?ov" by blast
      have "raw (scalar cva t1) \<le> raw (scalar cva t2)"
        unfolding scalar_def Dec.sel using ypos x1 x2 le by (intro scalar_mono) simp_all
      with ov have "vestedAmt (scalar cva t1) ?ov \<le> vestedAmt (scalar cva t2) ?ov"
        by (intro vestedAmt_mono)
      with v1 v2 a1 a2 show ?thesis by simp
    qed
  qed
qed

theorem C7_vested_monotone_witness:
  "normal_form (originalVesting seed_account)
   \<and> sint (startTime seed_account) < sint (endTime seed_account)
   \<and> sint (endTime seed_account) - sint (startTime seed_account) < 2 ^ 63
   \<and> sint (50 :: 64 word) - sint (startTime seed_account) < 2 ^ 63
   \<and> sint (25 :: 64 word) \<le> sint (50 :: 64 word)
   \<and> (\<exists>v1 v2. GetVestedCoins seed_account 25 = Inr v1
          \<and> GetVestedCoins seed_account 50 = Inr v2
          \<and> AmountOf v1 ''atom'' \<le> AmountOf v2 ''atom'')"
proof -
  have h1: "normal_form (originalVesting seed_account)" by code_simp
  have h2: "sint (startTime seed_account) < sint (endTime seed_account)" by code_simp
  have h3: "sint (endTime seed_account) - sint (startTime seed_account) < 2 ^ 63"
    by code_simp
  have h4: "sint (50 :: 64 word) - sint (startTime seed_account) < 2 ^ 63" by code_simp
  have h5: "sint (25 :: 64 word) \<le> sint (50 :: 64 word)" by code_simp
  from C7_vested_monotone [OF h1 h2 h3 h4 h5, of "''atom''"] h1 h2 h3 h4 h5
  show ?thesis by blast
qed

text \<open>
  The claim as stated fails where the schedule is degenerate, which the constructor
  accepts: with the end time before the start time the vested amounts are negative and
  fall as time goes on; with both equal the query fails after the start time with a
  division by zero. It also fails where \<open>end - start\<close> wraps around.
\<close>

theorem C7_counterexample:
  "GetVestedCoins (NewContinuousVestingAccount [] [Coin ''atom'' 100] 100 0) 101
     = Inr [Coin ''atom'' (- 1)]
   \<and> GetVestedCoins (NewContinuousVestingAccount [] [Coin ''atom'' 100] 100 0) 102
     = Inr [Coin ''atom'' (- 2)]
   \<and> GetVestedCoins (NewContinuousVestingAccount [] [Coin ''atom'' 100] 7 7) 7 = Inr []
   \<and> GetVestedCoins (NewContinuousVestingAccount [] [Coin ''atom'' 100] 7 7) 8
     = Inl DivisionByZero
   \<and> GetVestedCoins (NewContinuousVestingAccount [] [Coin ''atom'' 100] (- (2 ^ 63)) 0)
        (2 * 10 ^ 18 - 2 ^ 63) = Inr [Coin ''atom'' (- 22)]
   \<and> GetVestedCoins (NewContinuousVestingAccount [] [Coin ''atom'' 100] (- (2 ^ 63)) 0)
        (4 * 10 ^ 18 - 2 ^ 63) = Inr [Coin ''atom'' (- 43)]"
  by code_simp

subsection \<open>Spendable coins\<close>

text \<open>
  C1 (amended): for an account whose base balance and original vesting are in normal
  form, \<open>GetVestingCoins\<close> returns at every block time up to the start time and, when
  the start time is before the end time and their difference fits an \<open>int64\<close>, at
  every block time up to the end time. Whenever it returns the vesting coins \<open>V\<close>,
  \<open>SpendableCoins\<close> returns too; its result is sorted, has no zero entry, and holds for
  each denomination of the base balance \<open>BC\<close> the amount \<open>min (BC + DV - V) BC\<close>,
  and nothing for any other denomination. Every amount is at most \<open>BC\<close>; it is
  non-negative where \<open>V \<le> BC + DV\<close>. The code takes no maximum with zero.
\<close>

theorem C1_spendable_coins:
  assumes bc: "normal_form (Coins cva)"
    and ov: "normal_form (originalVesting cva)"
  shows
    "(sint blockTime \<le> sint (startTime cva) \<or>
       (sint (startTime cva) < sint (endTime cva) \<and>
        sint (endTime cva) - sint (startTime cva) < 2 ^ 63 \<and>
        sint blockTime \<le> sint (endTime cva))
      \<longrightarrow> (\<exists>v. GetVestingCoins cva blockTime = Inr v))
     \<and> (\<forall>v. GetVestingCoins cva blockTime = Inr v \<longrightarrow>
          (\<exists>sp. SpendableCoins cva blockTime = Inr sp
             \<and> sorted_denoms sp \<and> 0 \<notin> Amount ` set sp
             \<and> (\<forall>denom.
                  AmountOf sp denom =
                    (if denom \<in> Denom ` set (Coins cva)
                     then min (AmountOf (Coins cva) denom
                                 + AmountOf (delegatedVesting cva) denom
                                 - AmountOf v denom)
                            (AmountOf (Coins cva) denom)
                     else 0)
                  \<and> AmountOf sp denom \<le> AmountOf (Coins cva) denom
                  \<and> (AmountOf v denom
                        \<le> AmountOf (Coins cva) denom + AmountOf (delegatedVesting cva) denom
                      \<longrightarrow> 0 \<le> AmountOf sp denom))))"
proof (intro conjI impI allI)
  assume "sint blockTime \<le> sint (startTime cva) \<or>
       (sint (startTime cva) < sint (endTime cva) \<and>
        sint (endTime cva) - sint (startTime cva) < 2 ^ 63 \<and>
        sint blockTime \<le> sint (endTime cva))"
  with ov show "\<exists>v. GetVestingCoins cva blockTime = Inr v"
    by (rule GetVestingCoins_returns)
next
  fix v
  assume v: "GetVestingCoins cva blockTime = Inr v"
  let ?sp = "SpendableCoins_loop (delegatedVesting cva) v [] (Coins cva)"
  have sb: "sorted_denoms (Coins cva)" using bc by (rule normal_form_sorted)
  have res: "sorted_denoms ?sp \<and> 0 \<notin> Amount ` set ?sp \<and>
      AmountOf ?sp denom =
         AmountOf [] denom +
         (if denom \<in> Denom ` set (Coins cva)
          then min (AmountOf (Coins cva) denom + AmountOf (delegatedVesting cva) denom
                     - AmountOf v denom) (AmountOf (Coins cva) denom)
          else 0)" for denom
    by (rule SpendableCoins_loop_result) (simp_all add: sb)
  have nn: "0 \<le> AmountOf (Coins cva) denom" for denom
    using bc by (rule normal_form_nonneg)
  have "SpendableCoins cva blockTime = Inr ?sp"
    using v by (simp add: SpendableCoins_def)
  moreover have "\<forall>denom.
                  AmountOf ?sp denom =
                    (if denom \<in> Denom ` set (Coins cva)
                     then min (AmountOf (Coins cva) denom
                                 + AmountOf (delegatedVesting cva) denom
                                 - AmountOf v denom)
                            (AmountOf (Coins cva) denom)
                     else 0)
                  \<and> AmountOf ?sp denom \<le> AmountOf (Coins cva) denom
                  \<and> (AmountOf v denom
                        \<le> AmountOf (Coins cva) denom + AmountOf (delegatedVesting cva) denom
                      \<longrightarrow> 0 \<le> AmountOf ?sp denom)"
    using res nn by (auto simp: min_def)
  ultimately show "\<exists>sp. SpendableCoins cva blockTime = Inr sp
             \<and> sorted_denoms sp \<and> 0 \<notin> Amount ` set sp
             \<and> (\<forall>denom.
                  AmountOf sp denom =
                    (if denom \<in> Denom ` set (Coins cva)
                     then min (AmountOf (Coins cva) denom
                                 + AmountOf (delegatedVesting cva) denom
                                 - AmountOf v denom)
                            (AmountOf (Coins cva) denom)
                     else 0)
                  \<and> AmountOf sp denom \<le> AmountOf (Coins cva) denom
                  \<and> (AmountOf v denom
                        \<le> AmountOf (Coins cva) denom + AmountOf (delegatedVesting cva) denom
                      \<longrightarrow> 0 \<le> AmountOf sp denom))"
    using res by blast
qed

theorem C1_spendable_coins_witness:
  "normal_form (Coins seed_account) \<and> normal_form (originalVesting seed_account)
   \<and> sint (startTime seed_account) < sint (endTime seed_account)
   \<and> sint (endTime seed_account) - sint (startTime seed_account) < 2 ^ 63
   \<and> sint (50 :: 64 word) \<le> sint (endTime seed_account)
   \<and> (\<exists>v sp. GetVestingCoins seed_account 50 = Inr v
          \<and> SpendableCoins seed_account 50 = Inr sp
          \<and> AmountOf sp ''atom''
              = min (AmountOf (Coins seed_account) ''atom''
                       + AmountOf (delegatedVesting seed_account) ''atom''
                       - AmountOf v ''atom'')
                  (AmountOf (Coins seed_account) ''atom'')
          \<and> AmountOf sp ''atom'' \<le> AmountOf (Coins seed_account) ''atom'')"
proof -
  have h1: "normal_form (Coins seed_account)" by code_simp
  have h2: "normal_form (originalVesting seed_account)" by code_simp
  have t1: "sint (startTime seed_account) < sint (endTime seed_account)" by code_simp
  have t2: "sint (endTime seed_account) - sint (startTime seed_account) < 2 ^ 63"
    by code_simp
  have t3: "sint (50 :: 64 word) \<le> sint (endTime seed_account)" by code_simp
  have m: "''atom'' \<in> Denom ` set (Coins seed_account)"
    by (simp add: seed_account_def NewContinuousVestingAccount_def)
  note c1 = C1_spendable_coins [OF h1 h2, of 50]
  from c1 t1 t2 t3 obtain v where v: "GetVestingCoins seed_account 50 = Inr v" by blast
  from c1 v obtain sp where sp: "SpendableCoins seed_account 50 = Inr sp"
    and a: "\<forall>denom.
              AmountOf sp denom =
                (if denom \<in> Denom ` set (Coins seed_account)
                 then min (AmountOf (Coins seed_account) denom
                             + AmountOf (delegatedVesting seed_account) denom
                             - AmountOf v denom)
                        (AmountOf (Coins seed_account) denom)
                 else 0)
              \<and> AmountOf sp denom \<le> AmountOf (Coins seed_account) denom
              \<and> (AmountOf v denom
                    \<le> AmountOf (Coins seed_account) denom
                      + AmountOf (delegatedVesting seed_account) denom
                  \<longrightarrow> 0 \<le> AmountOf sp denom)"
    by blast
  from a m have
    "AmountOf sp ''atom''
       = min (AmountOf (Coins seed_account) ''atom''
                + AmountOf (delegatedVesting seed_account) ''atom''
                - AmountOf v ''atom'')
           (AmountOf (Coins seed_account) ''atom'')"
    and "AmountOf sp ''atom'' \<le> AmountOf (Coins seed_account) ''atom''"
    by simp_all
  with h1 h2 t1 t2 t3 v sp show ?thesis by blast
qed

text \<open>
  The claim as stated fails: an account that holds 1 atom of base balance while 100 atom
  are still vesting gets a spendable amount of -99 atom, below zero and not stripped;
  and an account whose start and end times coincide gets no answer after that time.
\<close>

theorem C1_counterexample:
  "SpendableCoins (seed_account\<lparr>Coins := [Coin ''atom'' 1]\<rparr>) 0 = Inr [Coin ''atom'' (- 99)]
   \<and> SpendableCoins (NewContinuousVestingAccount [] [Coin ''atom'' 100] 7 7) 8
     = Inl DivisionByZero"
  by code_simp

subsection \<open>Tracking a delegation\<close>




subsection \<open>Round trip\<close>



subsection \<open>Undelegating too much\<close>

text \<open>
  C4 (amended): let the two delegation ledgers and the amount \<open>R\<close> be in normal form.
  If some coin \<open>(d, Rd)\<close> of \<open>R\<close> has \<open>Y = Rd - min (DF d) Rd\<close> above the delegated
  vesting amount of \<open>d\<close>, and \<open>d\<close> is present in the delegated vesting ledger, then
  \<open>TrackUndelegation\<close> fails with \<open>NegativeResult\<close>. The account at the failure
  differs from the one before at most in its two delegation ledgers and its base balance.
  When \<open>R\<close> is that one coin, the base balance and the delegated vesting ledger are as
  before, and the delegated free amount of \<open>d\<close> has already gone down by
  \<open>min (DF d) Rd\<close>: the method assigns the delegated free ledger before it subtracts
  from the delegated vesting ledger.
\<close>

theorem C4_over_undelegation_fails:
  assumes df: "normal_form (delegatedFree cva)"
    and dv: "normal_form (delegatedVesting cva)"
    and am: "normal_form amount"
    and coin: "coin \<in> set amount"
    and over: "AmountOf (delegatedVesting cva) (Denom coin)
                 < Amount coin
                   - min (AmountOf (delegatedFree cva) (Denom coin)) (Amount coin)"
    and present: "0 < AmountOf (delegatedVesting cva) (Denom coin)"
  shows "\<exists>cva'.
           TrackUndelegation cva amount = Inl (NegativeResult, cva')
         \<and> (\<exists>df' dv' c'.
               cva' = cva\<lparr>delegatedFree := df', delegatedVesting := dv', Coins := c'\<rparr>)
         \<and> (amount = [coin] \<longrightarrow>
               Coins cva' = Coins cva
             \<and> delegatedVesting cva' = delegatedVesting cva
             \<and> (\<forall>d. AmountOf (delegatedFree cva') d =
                      AmountOf (delegatedFree cva) d
                      - (if d = Denom coin
                         then min (AmountOf (delegatedFree cva) (Denom coin)) (Amount coin)
                         else 0)))"
proof (cases "amount = [coin]")
  case True
  let ?x = "min (AmountOf (delegatedFree cva) (Denom coin)) (Amount coin)"
  let ?y = "Amount coin - ?x"
  have pos: "0 < Amount coin" using normal_form_amounts(1) [OF am coin] .
  from drain_delegatedFree [OF df pos]
  obtain df1 where df1: "(if ?x \<noteq> 0 then Minus (delegatedFree cva) [NewCoin (Denom coin) ?x]
                          else Inr (delegatedFree cva)) = Inr df1"
    and adf: "\<And>d. AmountOf df1 d = AmountOf (delegatedFree cva) d
                 - (if d = Denom coin then ?x else 0)"
    by blast
  have xm: "?x = MinInt (AmountOf (delegatedFree cva) (Denom coin)) (Amount coin)"
    by (simp only: MinInt_min)
  have a0: "Amount coin \<noteq> 0" using pos by simp
  have y0: "?y \<noteq> 0" using over present by linarith
  have "Minus (delegatedVesting cva) [NewCoin (Denom coin) ?y] = Inl NegativeResult"
    unfolding NewCoin_def using dv present over by (intro Minus_single_fails) simp_all
  from TrackUndelegation_loop_Cons_fails [OF a0 xm df1 y0 this, of "Coins cva" "[]"] True
  have r: "TrackUndelegation cva amount = Inl (NegativeResult, cva\<lparr>delegatedFree := df1\<rparr>)"
    by (simp add: TrackUndelegation_def)
  have "cva\<lparr>delegatedFree := df1\<rparr>
          = cva\<lparr>delegatedFree := df1, delegatedVesting := delegatedVesting cva,
                Coins := Coins cva\<rparr>" by simp
  then have "\<exists>df' dv' c'. cva\<lparr>delegatedFree := df1\<rparr>
               = cva\<lparr>delegatedFree := df', delegatedVesting := dv', Coins := c'\<rparr>" by blast
  with r adf show ?thesis by (intro exI [of _ "cva\<lparr>delegatedFree := df1\<rparr>"]) simp
next
  case False
  have sa: "sorted_denoms amount" using am by (rule normal_form_sorted)
  have pa: "\<forall>c\<in>set amount. 0 < Amount c" using am by (simp add: normal_form_iff)
  from TrackUndelegation_loop_fails [OF df dv sa pa coin over present, of "Coins cva"]
  obtain df' dv' c' where
    "TrackUndelegation cva amount =
       Inl (NegativeResult, cva\<lparr>delegatedFree := df', delegatedVesting := dv', Coins := c'\<rparr>)"
    by (auto simp: TrackUndelegation_def)
  with False show ?thesis by blast
qed

theorem C4_over_undelegation_fails_witness:
  "normal_form (delegatedFree
      (seed_account\<lparr>delegatedFree := [Coin ''atom'' 3], delegatedVesting := [Coin ''atom'' 2]\<rparr>))
   \<and> normal_form (delegatedVesting
      (seed_account\<lparr>delegatedFree := [Coin ''atom'' 3], delegatedVesting := [Coin ''atom'' 2]\<rparr>))
   \<and> normal_form [Coin ''atom'' 10]
   \<and> (\<exists>cva'.
         TrackUndelegation
           (seed_account\<lparr>delegatedFree := [Coin ''atom'' 3],
                          delegatedVesting := [Coin ''atom'' 2]\<rparr>)
           [Coin ''atom'' 10] = Inl (NegativeResult, cva')
       \<and> Coins cva' = Coins seed_account
       \<and> delegatedVesting cva' = [Coin ''atom'' 2]
       \<and> AmountOf (delegatedFree cva') ''atom'' = 3 - min 3 10)"
proof -
  let ?acc = "seed_account\<lparr>delegatedFree := [Coin ''atom'' 3],
                            delegatedVesting := [Coin ''atom'' 2]\<rparr>"
  have h1: "normal_form (delegatedFree ?acc)" by code_simp
  have h2: "normal_form (delegatedVesting ?acc)" by code_simp
  have h3: "normal_form [Coin ''atom'' 10]" by code_simp
  have h4: "Coin ''atom'' 10 \<in> set [Coin ''atom'' 10]" by simp
  have h5: "AmountOf (delegatedVesting ?acc) (Denom (Coin ''atom'' 10))
              < Amount (Coin ''atom'' 10)
                - min (AmountOf (delegatedFree ?acc) (Denom (Coin ''atom'' 10)))
                    (Amount (Coin ''atom'' 10))" by simp
  have h6: "0 < AmountOf (delegatedVesting ?acc) (Denom (Coin ''atom'' 10))" by simp
  from C4_over_undelegation_fails [OF h1 h2 h3 h4 h5 h6]
  obtain cva' where
    "TrackUndelegation ?acc [Coin ''atom'' 10] = Inl (NegativeResult, cva')"
    "Coins cva' = Coins ?acc" "delegatedVesting cva' = delegatedVesting ?acc"
    "AmountOf (delegatedFree cva') ''atom'' =
       AmountOf (delegatedFree ?acc) ''atom''
       - min (AmountOf (delegatedFree ?acc) ''atom'') 10"
    by auto
  then have "\<exists>cva'.
         TrackUndelegation ?acc [Coin ''atom'' 10] = Inl (NegativeResult, cva')
       \<and> Coins cva' = Coins seed_account
       \<and> delegatedVesting cva' = [Coin ''atom'' 2]
       \<and> AmountOf (delegatedFree cva') ''atom'' = 3 - min 3 10"
    by (intro exI [of _ cva']) simp
  with h1 h2 h3 show ?thesis by blast
qed

text \<open>
  The claim as stated fails twice. With 3 atom delegated free and 2 atom delegated
  vesting, undelegating 10 atom fails as claimed, but leaves the delegated free ledger
  empty. With nothing delegated at all, undelegating 10 atom does not fail: subtracting a
  denomination that the minuend lacks is a no-op, and the base balance grows to 110 atom.
\<close>

theorem C4_counterexample:
  "TrackUndelegation
     (seed_account\<lparr>delegatedFree := [Coin ''atom'' 3], delegatedVesting := [Coin ''atom'' 2]\<rparr>)
     [Coin ''atom'' 10]
     = Inl (NegativeResult,
            seed_account\<lparr>delegatedFree := [], delegatedVesting := [Coin ''atom'' 2]\<rparr>)
   \<and> TrackUndelegation seed_account [Coin ''atom'' 10]
     = Inr (seed_account\<lparr>Coins := [Coin ''atom'' 110]\<rparr>)"
  by code_simp

subsection \<open>Conservation and the delegation bound\<close>

text \<open>
  C2 (the code falls short of it): the sum of base balance, delegated vesting and
  delegated free coins of a denomination should not change under tracking calls. Both
  loops read the base coins once, before the loop, and every iteration assigns the
  account's coins from that first reading, so only the last coin of a multi-denomination
  amount is debited or credited. Delegating 1 a and 1 b from an account that holds
  exactly these moves both into the delegated vesting ledger and leaves 1 a in the
  base balance: the quantity for a goes from 1 to 2.
\<close>

theorem C2_conservation_broken_by_stale_base_coins:
  "run_calls two_denom_account [CallTrackDelegation 0 [Coin ''a'' 1, Coin ''b'' 1]]
     = Inr (two_denom_account
              \<lparr>Coins := [Coin ''a'' 1], delegatedVesting := [Coin ''a'' 1, Coin ''b'' 1]\<rparr>)
   \<and> Q two_denom_account ''a'' = 1
   \<and> Q (two_denom_account
           \<lparr>Coins := [Coin ''a'' 1], delegatedVesting := [Coin ''a'' 1, Coin ''b'' 1]\<rparr>)
         ''a'' = 2"
  by code_simp

text \<open>
  C6 (the code falls short of it): starting from a new account, the delegated coins of a
  denomination should never exceed its original vesting. After the delegation above the
  base balance still shows the 1 a that was delegated, so it can be delegated again: the
  ledgers then hold 2 a against an original vesting of 1 a.
\<close>

theorem C6_delegation_bound_broken_by_stale_base_coins:
  "run_calls two_denom_account
       [CallTrackDelegation 0 [Coin ''a'' 1, Coin ''b'' 1], CallTrackDelegation 0 [Coin ''a'' 1]]
     = Inr (two_denom_account
              \<lparr>Coins := [], delegatedVesting := [Coin ''a'' 1, Coin ''b'' 1],
                delegatedFree := [Coin ''a'' 1]\<rparr>)
   \<and> AmountOf [Coin ''a'' 1, Coin ''b'' 1] ''a'' + AmountOf [Coin ''a'' 1] ''a'' = 2
   \<and> AmountOf (originalVesting two_denom_account) ''a'' = 1"
  by code_simp

subsection \<open>The delayed schedule\<close>

text \<open>
  C9 (amended, on the model of the specification): for a delayed vesting account whose
  base balance, original vesting and delegated vesting are in normal form, nothing is
  vested before the end time and the original vesting is vested from the end time on.
  Before the end time the spendable amount of a denomination is
  \<open>min (max (BC + DV - OV) 0) BC\<close>; it is zero for every denomination when the
  account holds no more than what is locked, \<open>BC + DV \<le> OV\<close>. From the end time on the
  spendable coins are the base balance.
\<close>

theorem C9_delayed_schedule:
  assumes bc: "normal_form (Coins dva)"
    and ov: "normal_form (originalVesting dva)"
    and dv: "normal_form dv"
  shows
    "(sint blockTime < sint (endTime dva) \<longrightarrow>
        DelayedGetVestedCoins dva blockTime = []
      \<and> (\<exists>sp. DelayedSpendableCoins dva dv blockTime = Inr sp
            \<and> (\<forall>d. AmountOf sp d =
                     min (max (AmountOf (Coins dva) d + AmountOf dv d
                                 - AmountOf (originalVesting dva) d) 0)
                       (AmountOf (Coins dva) d))
            \<and> ((\<forall>d. AmountOf (Coins dva) d + AmountOf dv d
                        \<le> AmountOf (originalVesting dva) d) \<longrightarrow> sp = [])))
     \<and> (sint (endTime dva) \<le> sint blockTime \<longrightarrow>
          DelayedGetVestedCoins dva blockTime = originalVesting dva
        \<and> DelayedSpendableCoins dva dv blockTime = Inr (Coins dva))"
proof (intro conjI impI)
  assume before: "sint blockTime < sint (endTime dva)"
  show vested: "DelayedGetVestedCoins dva blockTime = []"
    using before by (simp add: DelayedGetVestedCoins_def)
  let ?sp = "spendable_per_spec dv (originalVesting dva) (Coins dva)"
  have sb: "sorted_denoms (Coins dva)" using bc by (rule normal_form_sorted)
  have sp: "DelayedSpendableCoins dva dv blockTime = Inr ?sp"
    by (simp add: DelayedSpendableCoins_def DelayedGetVestingCoins_def vested
          Minus_Nil2 [OF ov])
  have nn: "0 \<le> AmountOf dv d" for d using dv by (rule normal_form_nonneg)
  have amt: "AmountOf ?sp d =
               min (max (AmountOf (Coins dva) d + AmountOf dv d
                           - AmountOf (originalVesting dva) d) 0)
                 (AmountOf (Coins dva) d)" for d
  proof (cases "d \<in> Denom ` set (Coins dva)")
    case True
    then show ?thesis by (simp add: AmountOf_spendable_per_spec [OF sb])
  next
    case False
    then have "AmountOf (Coins dva) d = 0" by (rule AmountOf_absent)
    with False show ?thesis by (simp add: AmountOf_spendable_per_spec [OF sb])
  qed
  have none: "?sp = []"
    if "\<forall>d. AmountOf (Coins dva) d + AmountOf dv d \<le> AmountOf (originalVesting dva) d"
  proof (rule spendable_per_spec_none)
    show "\<forall>c\<in>set (Coins dva).
            Amount c + AmountOf dv (Denom c) \<le> AmountOf (originalVesting dva) (Denom c)"
      using that AmountOf_member [OF sb] by metis
    show "all_positive (Coins dva)" using bc by (simp add: normal_form_def)
  qed
  show "\<exists>sp. DelayedSpendableCoins dva dv blockTime = Inr sp
            \<and> (\<forall>d. AmountOf sp d =
                     min (max (AmountOf (Coins dva) d + AmountOf dv d
                                 - AmountOf (originalVesting dva) d) 0)
                       (AmountOf (Coins dva) d))
            \<and> ((\<forall>d. AmountOf (Coins dva) d + AmountOf dv d
                        \<le> AmountOf (originalVesting dva) d) \<longrightarrow> sp = [])"
    using sp amt none by blast
next
  assume after: "sint (endTime dva) \<le> sint blockTime"
  show vested: "DelayedGetVestedCoins dva blockTime = originalVesting dva"
    using after by (simp add: DelayedGetVestedCoins_def)
  have nn: "\<forall>d. 0 \<le> AmountOf dv d" using dv by (simp add: normal_form_nonneg)
  have "spendable_per_spec dv [] (Coins dva) = Coins dva"
    using bc nn by (intro spendable_per_spec_all) (simp_all add: normal_form_def)
  then show "DelayedSpendableCoins dva dv blockTime = Inr (Coins dva)"
    by (simp add: DelayedSpendableCoins_def DelayedGetVestingCoins_def vested
          Minus_self [OF ov])
qed

theorem C9_delayed_schedule_witness:
  "normal_form (Coins delayed_seed_account)
   \<and> normal_form (originalVesting delayed_seed_account) \<and> normal_form []
   \<and> sint (99 :: 64 word) < sint (endTime delayed_seed_account)
   \<and> sint (endTime delayed_seed_account) \<le> sint (100 :: 64 word)
   \<and> DelayedGetVestedCoins delayed_seed_account 99 = []
   \<and> DelayedSpendableCoins delayed_seed_account [] 99 = Inr []
   \<and> DelayedGetVestedCoins delayed_seed_account 100 = originalVesting delayed_seed_account
   \<and> DelayedSpendableCoins delayed_seed_account [] 100 = Inr (Coins delayed_seed_account)"
proof -
  have h1: "normal_form (Coins delayed_seed_account)" by code_simp
  have h2: "normal_form (originalVesting delayed_seed_account)" by code_simp
  have h3: "normal_form []" by code_simp
  have t1: "sint (99 :: 64 word) < sint (endTime delayed_seed_account)" by code_simp
  have t2: "sint (endTime delayed_seed_account) \<le> sint (100 :: 64 word)" by code_simp
  have le: "\<forall>d. AmountOf (Coins delayed_seed_account) d + AmountOf [] d
                 \<le> AmountOf (originalVesting delayed_seed_account) d"
    by (simp add: delayed_seed_account_def)
  from C9_delayed_schedule [OF h1 h2 h3, of 99] t1 le
  have "DelayedGetVestedCoins delayed_seed_account 99 = []"
    and "DelayedSpendableCoins delayed_seed_account [] 99 = Inr []"
    by auto
  moreover from C9_delayed_schedule [OF h1 h2 h3, of 100] t2
  have "DelayedGetVestedCoins delayed_seed_account 100 = originalVesting delayed_seed_account"
    and "DelayedSpendableCoins delayed_seed_account [] 100 = Inr (Coins delayed_seed_account)"
    by blast+
  ultimately show ?thesis using h1 h2 h3 t1 t2 by blast
qed

text \<open>
  The claim as stated fails for an account that holds more than its locked coins: with
  100 atom locked until time 100 and a base balance of 200 atom, 100 atom are spendable
  at time 99.
\<close>

theorem C9_counterexample:
  "DelayedSpendableCoins (delayed_seed_account\<lparr>Coins := [Coin ''atom'' 200]\<rparr>) [] 99
     = Inr [Coin ''atom'' 100]"
  by code_simp

end
